theory Spec2Isabelle
  imports Complex_Main "HOL-Library.Char_ord"
begin

section \<open>Errors and results\<close>

text \<open>
  The notebook \<^verbatim>\<open>speciesRNN.ipynb\<close> is a sequence of cells; every Python
  exception that a modelled statement can raise is a value of \<open>error\<close>, and a
  statement that can raise returns \<open>error + 'a\<close> with \<open>Inl\<close> for the exception.
\<close>

datatype error = ValueError | KeyError | IndexError

type_synonym 'a result = "error + 'a"

definition bnd :: "'a result \<Rightarrow> ('a \<Rightarrow> 'b result) \<Rightarrow> 'b result" where
  "bnd r f = (case r of Inl e \<Rightarrow> Inl e | Inr v \<Rightarrow> f v)"

text \<open>A \<^verbatim>\<open>for\<close> loop over a list whose body may raise: the first exception ends it.\<close>

fun for_each :: "('a \<Rightarrow> 's \<Rightarrow> 's result) \<Rightarrow> 'a list \<Rightarrow> 's \<Rightarrow> 's result" where
  "for_each body [] s = Inr s"
| "for_each body (x # xs) s = bnd (body x s) (for_each body xs)"

text \<open>\<^verbatim>\<open>range(n)\<close> for a Python integer \<open>n\<close>: empty when \<open>n \<le> 0\<close>.\<close>

definition range_py :: "int \<Rightarrow> nat list" where
  "range_py n = [0..<nat n]"

section \<open>Loading and normalising the corpus\<close>

text \<open>
  \<^verbatim>\<open>
  species = []
  with open("bacterial_species.txt", "r") as h:
      for line in h:
          species.append(line.replace("\n", "@").lower())
  \<close>
  The file is its text as Python's text layer delivers it (line ends already translated
  to the newline character). Iterating over the file yields each line with its newline;
  only the last line can lack one, and an empty remainder yields no line.
\<close>

definition newline :: char where
  "newline = CHR 0x0A"

definition terminator :: char where
  "terminator = CHR ''@''"

fun lines_from :: "string \<Rightarrow> string \<Rightarrow> string list" where
  "lines_from cur [] = (if cur = [] then [] else [cur])"
| "lines_from cur (c # cs) =
     (if c = newline then (cur @ [c]) # lines_from [] cs else lines_from (cur @ [c]) cs)"

definition file_lines :: "string \<Rightarrow> string list" where
  "file_lines txt = lines_from [] txt"

text \<open>\<^verbatim>\<open>line.replace("\n", "@")\<close>: every newline character becomes the terminator.\<close>

definition replace_newline :: "string \<Rightarrow> string" where
  "replace_newline line = map (\<lambda>c. if c = newline then terminator else c) line"

text \<open>
  \<^verbatim>\<open>str.lower()\<close>, character by character. A \<open>char\<close> is a code point below
  256; the capital letters there are A to Z (65 to 90) and the accented capitals 192 to
  214 and 216 to 222, and each has its small letter 32 places further on. Every other
  character below 256 is unchanged.
\<close>

definition lower_char :: "char \<Rightarrow> char" where
  "lower_char c =
     (let n = (of_char c :: nat)
      in if (65 \<le> n \<and> n \<le> 90) \<or> (192 \<le> n \<and> n \<le> 214) \<or> (216 \<le> n \<and> n \<le> 222)
         then char_of (n + 32) else c)"

definition lower :: "string \<Rightarrow> string" where
  "lower s = map lower_char s"

definition load_species :: "string \<Rightarrow> string list" where
  "load_species txt = map (\<lambda>line. lower (replace_newline line)) (file_lines txt)"

section \<open>Vocabulary\<close>

text \<open>
  \<^verbatim>\<open>
  char_set = set()
  for i in species:
      for j in i:
          char_set.add(j)
  n_x = len(char_set)
  char_list = sorted(list(char_set))
  char_map = {i:c for c, i in enumerate(char_list)}
  def char2idx(char): return char_map[char]
  def idx2char(idx): return char_list[idx]
  \<close>
  Characters are ordered by their code, as Python orders one-character strings.
\<close>

definition char_set :: "string list \<Rightarrow> char set" where
  "char_set species = set (concat species)"

definition n_x :: "string list \<Rightarrow> nat" where
  "n_x species = card (char_set species)"

definition char_list :: "string list \<Rightarrow> string" where
  "char_list species = sorted_list_of_set (char_set species)"

text \<open>The dict comprehension stores the pairs in order; a later pair would overwrite.\<close>

definition char_map :: "string \<Rightarrow> (char \<rightharpoonup> nat)" where
  "char_map cl = fold (\<lambda>(c, i) m. m(i \<mapsto> c)) (enumerate 0 cl) Map.empty"

definition char2idx :: "(char \<rightharpoonup> nat) \<Rightarrow> char \<Rightarrow> nat result" where
  "char2idx cm ch = (case cm ch of None \<Rightarrow> Inl KeyError | Some k \<Rightarrow> Inr k)"

text \<open>
  \<open>idx2char\<close> is only ever called on an index drawn by numpy's random functions,
  which is never negative; the index is a natural number.
\<close>

definition idx2char :: "string \<Rightarrow> nat \<Rightarrow> char result" where
  "idx2char cl idx = (if idx < length cl then Inr (cl ! idx) else Inl IndexError)"

section \<open>One-hot encoding with zero padding\<close>

text \<open>
  \<^verbatim>\<open>
  maxlen = max([len(i) - 1 for i in species])
  X = np.zeros((len(species), maxlen, n_x))
  Y = np.zeros((len(species), maxlen, n_x))
  for i, chars in enumerate(species):
      for t in range(len(chars) - 1):
          X[i, t, char2idx(chars[t])] = 1
          # label is shifted to the right
          Y[i, t, char2idx(chars[t + 1])] = 1
  \<close>
  A rank-3 array is a list of rows, each a list of time steps, each a vector over the
  vocabulary. Its entries are numpy floats; only 0.0 and 1.0 are ever stored.
\<close>

type_synonym vec = "real list"
type_synonym ndarray = "vec list list"

text \<open>\<^verbatim>\<open>max\<close> of a list of integers raises ValueError on the empty list.\<close>

definition py_max :: "int list \<Rightarrow> int result" where
  "py_max xs = (case xs of [] \<Rightarrow> Inl ValueError | y # ys \<Rightarrow> Inr (fold max ys y))"

text \<open>\<^verbatim>\<open>np.zeros((a, b, c))\<close> raises ValueError on a negative dimension.\<close>

definition np_zeros :: "nat \<Rightarrow> int \<Rightarrow> nat \<Rightarrow> ndarray result" where
  "np_zeros a b c =
     (if b < 0 then Inl ValueError else Inr (replicate a (replicate (nat b) (replicate c 0))))"

text \<open>\<^verbatim>\<open>A[i, t, k] = 1\<close> with indices that are never negative: IndexError out of range.\<close>

definition set_item :: "ndarray \<Rightarrow> nat \<Rightarrow> nat \<Rightarrow> nat \<Rightarrow> ndarray result" where
  "set_item A i t k =
     (if i < length A \<and> t < length (A ! i) \<and> k < length (A ! i ! t)
      then Inr (A[i := (A ! i)[t := (A ! i ! t)[k := 1]]])
      else Inl IndexError)"

text \<open>\<^verbatim>\<open>chars[t]\<close> on a string, \<open>t\<close> never negative.\<close>

definition str_item :: "string \<Rightarrow> nat \<Rightarrow> char result" where
  "str_item chars t = (if t < length chars then Inr (chars ! t) else Inl IndexError)"

text \<open>The body of the inner loop, in the order of the source's statements.\<close>

definition encode_step ::
  "(char \<rightharpoonup> nat) \<Rightarrow> nat \<Rightarrow> string \<Rightarrow> nat \<Rightarrow> ndarray \<times> ndarray \<Rightarrow> (ndarray \<times> ndarray) result"
where
  "encode_step cm i chars t XY =
     bnd (str_item chars t) (\<lambda>c.
     bnd (char2idx cm c) (\<lambda>a.
     bnd (set_item (fst XY) i t a) (\<lambda>X'.
     bnd (str_item chars (t + 1)) (\<lambda>d.
     bnd (char2idx cm d) (\<lambda>b.
     bnd (set_item (snd XY) i t b) (\<lambda>Y'.
     Inr (X', Y')))))))"

definition encode_name ::
  "(char \<rightharpoonup> nat) \<Rightarrow> nat \<times> string \<Rightarrow> ndarray \<times> ndarray \<Rightarrow> (ndarray \<times> ndarray) result"
where
  "encode_name cm ic XY =
     for_each (encode_step cm (fst ic) (snd ic)) (range_py (int (length (snd ic)) - 1)) XY"

definition maxlen :: "string list \<Rightarrow> int result" where
  "maxlen species = py_max (map (\<lambda>i. int (length i) - 1) species)"

definition encoder :: "string list \<Rightarrow> (ndarray \<times> ndarray) result" where
  "encoder species =
     bnd (maxlen species) (\<lambda>ml.
     bnd (np_zeros (length species) ml (n_x species)) (\<lambda>X.
     bnd (np_zeros (length species) ml (n_x species)) (\<lambda>Y.
     for_each (encode_name (char_map (char_list species))) (enumerate 0 species) (X, Y))))"

section \<open>Reading the encoded batch\<close>

text \<open>
  \<^verbatim>\<open>A[i]\<close> and \<^verbatim>\<open>A[i, t, :]\<close> with indices that are never negative; numpy raises
  IndexError out of range. \<open>input_row\<close>, \<open>target_row\<close>, \<open>input_step\<close> and
  \<open>target_step\<close> read the arrays \<open>X\<close> and \<open>Y\<close> that the encoding cell leaves behind.
\<close>

definition get_row :: "ndarray \<Rightarrow> nat \<Rightarrow> vec list result" where
  "get_row A i = (if i < length A then Inr (A ! i) else Inl IndexError)"

definition get_step :: "ndarray \<Rightarrow> nat \<Rightarrow> nat \<Rightarrow> vec result" where
  "get_step A i t =
     (if i < length A \<and> t < length (A ! i) then Inr (A ! i ! t) else Inl IndexError)"

definition input_row :: "string list \<Rightarrow> nat \<Rightarrow> vec list result" where
  "input_row species i = bnd (encoder species) (\<lambda>XY. get_row (fst XY) i)"

definition target_row :: "string list \<Rightarrow> nat \<Rightarrow> vec list result" where
  "target_row species i = bnd (encoder species) (\<lambda>XY. get_row (snd XY) i)"

definition input_step :: "string list \<Rightarrow> nat \<Rightarrow> nat \<Rightarrow> vec result" where
  "input_step species i t = bnd (encoder species) (\<lambda>XY. get_step (fst XY) i t)"

definition target_step :: "string list \<Rightarrow> nat \<Rightarrow> nat \<Rightarrow> vec result" where
  "target_step species i t = bnd (encoder species) (\<lambda>XY. get_step (snd XY) i t)"

text \<open>
  The vectors the specification speaks of: the one-hot vector of width \<open>n\<close> for index
  \<open>k\<close> (1 at position \<open>k\<close>, 0 elsewhere) and the all-zero vector.
\<close>

definition one_hot :: "nat \<Rightarrow> nat \<Rightarrow> vec" where
  "one_hot n k = map (\<lambda>j. if j = k then 1 else 0) [0..<n]"

definition zeros :: "nat \<Rightarrow> vec" where
  "zeros n = replicate n 0"

text \<open>
  The one-hot index of a vector: the position of its first non-zero entry, \<open>None\<close>
  for an all-zero (padding) vector.
\<close>

definition hot_index :: "vec \<Rightarrow> nat option" where
  "hot_index v = List.find (\<lambda>k. v ! k \<noteq> 0) [0..<length v]"

text \<open>
  Decoding a row as the round-trip law describes it: every non-zero time step goes back
  to its character through \<open>idx2char\<close>, all-zero steps are skipped.
\<close>

fun decode :: "string \<Rightarrow> vec list \<Rightarrow> string result" where
  "decode cl [] = Inr []"
| "decode cl (v # vs) =
     (case hot_index v of
        None \<Rightarrow> decode cl vs
      | Some k \<Rightarrow> bnd (idx2char cl k) (\<lambda>c. bnd (decode cl vs) (\<lambda>s. Inr (c # s))))"

section \<open>Sampling\<close>

text \<open>
  The two sampling cells draw from numpy's global random state. The draws are made
  explicit: a run is given the list of the values that \<^verbatim>\<open>np.random.randint\<close> and
  \<^verbatim>\<open>np.random.choice\<close> are going to return, in order. A run then either returns,
  raises, is still inside its \<^verbatim>\<open>while True\<close> loop when the listed draws are used up
  (\<open>Unfinished\<close>), or meets a listed value that numpy cannot return at that point
  (\<open>NoSuchDraw\<close>: the list describes no run of the program).
\<close>

datatype 'a run = Returned 'a | Raised error | Unfinished | NoSuchDraw

definition rbind :: "'a run \<Rightarrow> ('a \<Rightarrow> 'b run) \<Rightarrow> 'b run" where
  "rbind r f =
     (case r of Returned v \<Rightarrow> f v | Raised e \<Rightarrow> Raised e
      | Unfinished \<Rightarrow> Unfinished | NoSuchDraw \<Rightarrow> NoSuchDraw)"

definition lift :: "'a result \<Rightarrow> 'a run" where
  "lift r = (case r of Inl e \<Rightarrow> Raised e | Inr v \<Rightarrow> Returned v)"

text \<open>
  \<^verbatim>\<open>np.random.randint(low, high)\<close> returns an integer from \<open>low\<close> up to \<open>high - 1\<close>
  and raises ValueError when that interval is empty.
\<close>

definition randint :: "nat \<Rightarrow> nat \<Rightarrow> nat \<Rightarrow> nat run" where
  "randint low high d =
     (if high \<le> low then Raised ValueError
      else if low \<le> d \<and> d < high then Returned d else NoSuchDraw)"

text \<open>
  \<^verbatim>\<open>np.random.choice(n, size=1, p=p)[0]\<close> returns an index below \<open>n\<close> whose
  probability \<open>p[d]\<close> is positive, and raises ValueError when \<open>p\<close> has not \<open>n\<close>
  entries. Its other checks of \<open>p\<close> (entries not negative, sum 1 up to rounding) are
  not modelled: a run that passes them is a run of the model.
\<close>

definition choice :: "nat \<Rightarrow> vec \<Rightarrow> nat \<Rightarrow> nat run" where
  "choice n p d =
     (if length p \<noteq> n then Raised ValueError
      else if d < n \<and> 0 < p ! d then Returned d else NoSuchDraw)"

text \<open>
  Arrays are objects: a variable holds the address of an array in the heap, a list of
  arrays indexed by address. Creating an array appends it; nothing is ever freed.
\<close>

type_synonym heap = "ndarray list"

definition alloc :: "heap \<Rightarrow> ndarray \<Rightarrow> heap \<times> nat" where
  "alloc h a = (h @ [a], length h)"

text \<open>\<^verbatim>\<open>model.predict(x, verbose=0)[0][-1]\<close>: the last time step of the first sample.\<close>

definition last_step :: "ndarray \<Rightarrow> vec result" where
  "last_step out =
     (case out of [] \<Rightarrow> Inl IndexError
      | r # _ \<Rightarrow> (if r = [] then Inl IndexError else Inr (last r)))"

text \<open>\<^verbatim>\<open>A[:, :, k] = 1\<close>, \<open>k\<close> never negative: IndexError when \<open>k\<close> is out of range.\<close>

definition set_last_axis :: "ndarray \<Rightarrow> nat \<Rightarrow> ndarray result" where
  "set_last_axis A k =
     (if list_all (list_all (\<lambda>v. k < length v)) A then Inr (map (map (\<lambda>v. v[k := 1])) A)
      else Inl IndexError)"

text \<open>
  \<^verbatim>\<open>np.concatenate((a, b), axis=1)\<close> joins the time steps of each sample and raises
  ValueError when the sample counts differ. (Both arrays have vectors of width \<open>n_x\<close>.)
\<close>

definition concatenate :: "ndarray \<Rightarrow> ndarray \<Rightarrow> ndarray result" where
  "concatenate a b =
     (if length a \<noteq> length b then Inl ValueError else Inr (map2 (@) a b))"

text \<open>
  The variables of the sampling loop: the heap, the array \<open>x\<close> refers to, and the list
  \<open>generated\<close>.
\<close>

record vars =
  heap :: heap
  x :: nat
  generated :: string

text \<open>
  \<^verbatim>\<open>
  while True:
      y_pred = model.predict(x, verbose=0)[0][-1]
      idx_sampled = np.random.choice(n_x, size=1, p=y_pred)[0]
      char = idx2char(idx_sampled)
      if char == "@":
          break
      generated.append(char)
      x_new = np.zeros((1, 1, n_x))
      x_new[:, :, idx_sampled] = 1
      x = np.concatenate((x, x_new), axis=1)
  \<close>
  The loop stands twice in the notebook, with the same text. \<open>sample_step\<close> is its
  body for the draw \<open>d\<close>: \<open>None\<close> is the \<^verbatim>\<open>break\<close>, \<open>Some\<close> the variables after
  the iteration. The trained model is the parameter \<open>predict\<close>.
\<close>

definition sample_step ::
  "(ndarray \<Rightarrow> ndarray) \<Rightarrow> string \<Rightarrow> nat \<Rightarrow> nat \<Rightarrow> vars \<Rightarrow> vars option run"
where
  "sample_step predict cl n d s =
     rbind (lift (last_step (predict (heap s ! x s)))) (\<lambda>y_pred.
     rbind (choice n y_pred d) (\<lambda>idx_sampled.
     rbind (lift (idx2char cl idx_sampled)) (\<lambda>char.
     if char = terminator then Returned None
     else
       rbind (lift (np_zeros 1 1 n)) (\<lambda>z.
       case alloc (heap s) z of (h1, x_new) \<Rightarrow>
       rbind (lift (set_last_axis (h1 ! x_new) idx_sampled)) (\<lambda>z'.
       rbind (lift (concatenate (h1[x_new := z'] ! x s) (h1[x_new := z'] ! x_new))) (\<lambda>c.
       case alloc (h1[x_new := z']) c of (h2, x') \<Rightarrow>
       Returned (Some \<lparr>heap = h2, x = x', generated = generated s @ [char]\<rparr>)))))))"

fun sample_loop ::
  "(ndarray \<Rightarrow> ndarray) \<Rightarrow> string \<Rightarrow> nat \<Rightarrow> nat list \<Rightarrow> vars \<Rightarrow> (vars \<times> nat list) run"
where
  "sample_loop predict cl n [] s =
     rbind (lift (last_step (predict (heap s ! x s)))) (\<lambda>y_pred. Unfinished)"
| "sample_loop predict cl n (d # ds) s =
     (case sample_step predict cl n d s of
        Returned None \<Rightarrow> Returned (s, ds)
      | Returned (Some s') \<Rightarrow> sample_loop predict cl n ds s'
      | Raised e \<Rightarrow> Raised e
      | Unfinished \<Rightarrow> Unfinished
      | NoSuchDraw \<Rightarrow> NoSuchDraw)"

text \<open>
  The diagnostic sampling of the training cell, at one checkpoint:
  \<^verbatim>\<open>
  generated = []
  # randomly select the first letter
  first_idx = np.random.randint(2, n_x)
  x = np.zeros((1, 1, n_x))
  x[:, :, first_idx] = 1
  generated.append(idx2char(first_idx))
  # generate sequence until reach end-of-sequence token
  while True: ...
  print("Randomly generated species name: {}\n".format("".join(generated)))
  \<close>
  \<open>generate_name\<close> returns the printed name, with the heap and the draws left over.
\<close>

fun generate_name ::
  "(ndarray \<Rightarrow> ndarray) \<Rightarrow> string list \<Rightarrow> nat list \<Rightarrow> heap \<Rightarrow> (string \<times> heap \<times> nat list) run"
where
  "generate_name predict species [] h =
     (if n_x species \<le> 2 then Raised ValueError else Unfinished)"
| "generate_name predict species (d # ds) h =
     rbind (randint 2 (n_x species) d) (\<lambda>first_idx.
     rbind (lift (np_zeros 1 1 (n_x species))) (\<lambda>z.
     case alloc h z of (h1, x0) \<Rightarrow>
     rbind (lift (set_last_axis (h1 ! x0) first_idx)) (\<lambda>z'.
     rbind (lift (idx2char (char_list species) first_idx)) (\<lambda>c.
     rbind (sample_loop predict (char_list species) (n_x species) ds
              \<lparr>heap = h1[x0 := z'], x = x0, generated = [c]\<rparr>) (\<lambda>r.
     Returned (generated (fst r), heap (fst r), snd r))))))"

text \<open>
  The last cell: the prefix is encoded once into the array \<open>staph\<close>.
  \<^verbatim>\<open>
  staph = np.zeros((1, len(prefix), n_x))
  for t in range(len(prefix)):
      staph[0, t, char2idx(prefix[t])] = 1
  \<close>
\<close>

definition encode_prefix_step ::
  "(char \<rightharpoonup> nat) \<Rightarrow> string \<Rightarrow> nat \<Rightarrow> nat \<Rightarrow> heap \<Rightarrow> heap result"
where
  "encode_prefix_step cm prefix staph t h =
     bnd (str_item prefix t) (\<lambda>c.
     bnd (char2idx cm c) (\<lambda>a.
     bnd (set_item (h ! staph) 0 t a) (\<lambda>A.
     Inr (h[staph := A]))))"

definition encode_prefix :: "string list \<Rightarrow> string \<Rightarrow> heap \<Rightarrow> (heap \<times> nat) result" where
  "encode_prefix species prefix h =
     bnd (np_zeros 1 (int (length prefix)) (n_x species)) (\<lambda>z.
     case alloc h z of (h1, staph) \<Rightarrow>
     bnd (for_each (encode_prefix_step (char_map (char_list species)) prefix staph)
            (range_py (int (length prefix))) h1) (\<lambda>h2.
     Inr (h2, staph)))"

text \<open>
  \<^verbatim>\<open>
  candidates = set()
  for _ in range(10):
      x = staph.copy()
      generated = []
      while True: ...
      candidates.add(prefix + "".join(generated))
  \<close>
  \<open>candidates_loop\<close> is the \<^verbatim>\<open>for\<close> loop with its number of iterations as an
  argument; the state is the heap, the set \<open>candidates\<close> and the draws left.
\<close>

fun candidates_loop ::
  "(ndarray \<Rightarrow> ndarray) \<Rightarrow> string list \<Rightarrow> string \<Rightarrow> nat \<Rightarrow> nat \<Rightarrow>
   heap \<times> string set \<times> nat list \<Rightarrow> (heap \<times> string set \<times> nat list) run"
where
  "candidates_loop predict species prefix staph 0 st = Returned st"
| "candidates_loop predict species prefix staph (Suc k) st =
     (case alloc (fst st) (fst st ! staph) of (h1, x0) \<Rightarrow>
      rbind (sample_loop predict (char_list species) (n_x species) (snd (snd st))
               \<lparr>heap = h1, x = x0, generated = []\<rparr>) (\<lambda>r.
      candidates_loop predict species prefix staph k
        (heap (fst r), insert (prefix @ generated (fst r)) (fst (snd st)), snd r)))"

definition synthesize ::
  "(ndarray \<Rightarrow> ndarray) \<Rightarrow> string list \<Rightarrow> string \<Rightarrow> nat list \<Rightarrow> heap \<Rightarrow>
   (heap \<times> string set \<times> nat list) run"
where
  "synthesize predict species prefix draws h =
     rbind (lift (encode_prefix species prefix h)) (\<lambda>hs.
     candidates_loop predict species prefix (snd hs) 10 (fst hs, {}, draws))"

section \<open>The probability that the sampling loop returns\<close>

text \<open>
  \<^verbatim>\<open>np.random.choice(n_x, size=1, p=y_pred)\<close> returns the index \<open>d\<close> with probability
  \<open>y_pred[d]\<close> (it checks that \<open>y_pred\<close> sums to 1). \<open>mass predict s d\<close> is that
  probability in the state \<open>s\<close> of the loop, and \<open>returns_within predict cl n k s\<close> is
  the probability that the loop, started in \<open>s\<close>, reaches its \<^verbatim>\<open>break\<close> within
  \<open>k\<close> iterations: the sum over the draws \<open>d\<close> of the first iteration of the
  probability of \<open>d\<close> times 1 when the iteration breaks, times the probability for the
  state after the iteration when it goes on, and times 0 when it raises. The loop
  returns with probability 1 when \<open>returns_within\<close> tends to 1 as \<open>k\<close> grows.
\<close>

definition mass :: "(ndarray \<Rightarrow> ndarray) \<Rightarrow> vars \<Rightarrow> nat \<Rightarrow> real" where
  "mass predict s d =
     (case last_step (predict (heap s ! x s)) of Inl e \<Rightarrow> 0 | Inr y_pred \<Rightarrow> y_pred ! d)"





section \<open>Closed forms of the encoding loops\<close>

text \<open>
  The state of the encoding loops as a closed form, used as loop invariant: the row of a
  name after \<open>j\<close> steps of the inner loop (\<open>sh\<close> is 0 for the input array and 1
  for the target array, which reads the character one place to the right), the row when
  the inner loop is done, and the batch after \<open>k\<close> names of the outer loop.
\<close>

definition partial_row :: "string \<Rightarrow> nat \<Rightarrow> nat \<Rightarrow> string \<Rightarrow> nat \<Rightarrow> vec list" where
  "partial_row cl ml sh chars j =
     map (\<lambda>t. if t < j then one_hot (length cl) (the (char_map cl (chars ! (t + sh))))
               else zeros (length cl)) [0..<ml]"

definition encoded_row :: "string \<Rightarrow> nat \<Rightarrow> nat \<Rightarrow> string \<Rightarrow> vec list" where
  "encoded_row cl ml sh chars = partial_row cl ml sh chars (nat (int (length chars) - 1))"

definition partial_batch :: "string \<Rightarrow> nat \<Rightarrow> nat \<Rightarrow> string list \<Rightarrow> nat \<Rightarrow> ndarray" where
  "partial_batch cl ml sh species k =
     map (\<lambda>i. if i < k then encoded_row cl ml sh (species ! i)
               else replicate ml (zeros (length cl))) [0..<length species]"

section \<open>Models for examples\<close>

text \<open>
  The trained network is a parameter of the sampler. For running the sampler on
  concrete inputs, \<open>const_model p\<close> predicts the distribution \<open>p\<close> at every time
  step of every sample.
\<close>

definition const_model :: "vec \<Rightarrow> ndarray \<Rightarrow> ndarray" where
  "const_model p a = map (map (\<lambda>v. p)) a"


section \<open>Results, loops and the vocabulary\<close>

lemma bnd_Inr [simp]: "bnd (Inr v) f = f v" by (simp add: bnd_def)
lemma bnd_Inl [simp]: "bnd (Inl e) f = Inl e" by (simp add: bnd_def)

lemma for_each_append: "for_each body (xs @ ys) s = bnd (for_each body xs s) (for_each body ys)"
  by (induction xs arbitrary: s) (auto simp: bnd_def split: sum.splits)

lemma char_map_fold_notin:
  "ch \<notin> set xs \<Longrightarrow> fold (\<lambda>(c, i) m. m(i \<mapsto> c)) (enumerate n xs) m ch = m ch"
  by (induction xs arbitrary: n m) auto

lemma char_map_fold_nth:
  "distinct xs \<Longrightarrow> k < length xs \<Longrightarrow>
   fold (\<lambda>(c, i) m. m(i \<mapsto> c)) (enumerate n xs) m (xs ! k) = Some (n + k)"
proof (induction xs arbitrary: n m k)
  case Nil
  then show ?case by simp
next
  case (Cons a xs)
  show ?case
  proof (cases k)
    case 0
    from Cons.prems have "a \<notin> set xs" by simp
    then have "fold (\<lambda>(c, i) m. m(i \<mapsto> c)) (enumerate (Suc n) xs) (m(a \<mapsto> n)) a
        = (m(a \<mapsto> n)) a"
      by (rule char_map_fold_notin)
    also have "\<dots> = Some n" by simp
    finally show ?thesis using 0 by (simp del: fun_upd_apply)
  next
    case (Suc j)
    with Cons.prems Cons.IH [of j "Suc n" "m(a \<mapsto> n)"] show ?thesis
      by (simp del: fun_upd_apply)
  qed
qed

lemma char_map_nth: "distinct cl \<Longrightarrow> k < length cl \<Longrightarrow> char_map cl (cl ! k) = Some k"
  using char_map_fold_nth [of cl k 0 Map.empty] by (simp add: char_map_def)

lemma char_list_distinct: "distinct (char_list species)"
  by (simp add: char_list_def)

lemma char_list_set: "set (char_list species) = char_set species"
  by (simp add: char_list_def char_set_def)

lemma char_list_length: "length (char_list species) = n_x species"
  by (simp add: char_list_def n_x_def char_set_def)

lemma char2idx_ok:
  assumes "c \<in> char_set species"
  shows "\<exists>k. k < n_x species \<and> char_list species ! k = c \<and>
             char2idx (char_map (char_list species)) c = Inr k"
proof -
  from assms have "c \<in> set (char_list species)" by (simp add: char_list_set)
  then obtain k where k: "k < length (char_list species)" "char_list species ! k = c"
    by (auto simp: in_set_conv_nth)
  with char_map_nth [OF char_list_distinct k(1)] show ?thesis
    by (auto simp: char2idx_def char_list_length)
qed

section \<open>The loader\<close>

lemma lower_char_terminator: "lower_char terminator = terminator"
  by (simp add: lower_char_def terminator_def)

text \<open>
  What the loader does for a line that ends in a newline: the record ends in the
  terminator.
\<close>

lemma terminated_line:
  assumes "line \<noteq> []" "last line = newline"
  shows "last (lower (replace_newline line)) = terminator"
  using assms by (simp add: lower_def replace_newline_def last_map lower_char_terminator)

lemma lines_from_nonempty:
  "line \<in> set (lines_from cur cs) \<Longrightarrow> line \<noteq> []"
  by (induction cs arbitrary: cur) (auto split: if_splits)

text \<open>
  Every record of the loader is non-empty: a line of the file has at least one
  character, and neither the replacement nor the lowering removes one. So the corpus
  that the loader hands to the encoder satisfies the hypothesis of the encoder theorems
  below.
\<close>

lemma load_species_nonempty:
  "s \<in> set (load_species cs) \<Longrightarrow> s \<noteq> []"
  by (auto simp: load_species_def file_lines_def lower_def replace_newline_def
           dest: lines_from_nonempty)

text \<open>
  Claim C7 fails on the code: the loader replaces the newline of a line by the
  terminator, so a last line that has no newline is stored without a terminator.
\<close>

theorem last_line_unterminated:
  "load_species (''A_b'' @ [newline] @ ''C_d'') = [''a_b@'', ''c_d''] \<and>
   last (load_species (''A_b'' @ [newline] @ ''C_d'') ! 1) \<noteq> terminator"
  by code_simp

section \<open>The inner encoding loop\<close>

lemma zeros_update: "(zeros n)[a := 1] = one_hot n a"
  by (rule nth_equalityI) (auto simp: zeros_def one_hot_def nth_list_update)

lemma partial_row_0: "partial_row cl ml sh chars 0 = replicate ml (zeros (length cl))"
  by (rule nth_equalityI) (auto simp: partial_row_def)

lemma partial_row_length [simp]: "length (partial_row cl ml sh chars j) = ml"
  by (simp add: partial_row_def)

lemma partial_row_nth:
  "t < ml \<Longrightarrow> partial_row cl ml sh chars j ! t =
     (if t < j then one_hot (length cl) (the (char_map cl (chars ! (t + sh)))) else zeros (length cl))"
  by (simp add: partial_row_def)

lemma partial_row_step:
  assumes "j < ml" "a = the (char_map cl (chars ! (j + sh)))"
  shows "(partial_row cl ml sh chars j)[j := (partial_row cl ml sh chars j ! j)[a := 1]]
         = partial_row cl ml sh chars (Suc j)"
  using assms
  by (intro nth_equalityI) (auto simp: partial_row_nth nth_list_update zeros_update)

lemma char2idx_in:
  assumes "distinct cl" "c \<in> set cl"
  shows "\<exists>k. k < length cl \<and> char2idx (char_map cl) c = Inr k \<and> char_map cl c = Some k"
proof -
  from assms(2) obtain k where "k < length cl" "cl ! k = c"
    by (auto simp: in_set_conv_nth)
  with char_map_nth [OF assms(1), of k] show ?thesis
    by (auto simp: char2idx_def)
qed

lemma encode_step_ok:
  assumes "distinct cl" "set chars \<subseteq> set cl"
    and "i < length X" "i < length Y" "j < ml" "Suc j < length chars"
    and "X ! i = partial_row cl ml 0 chars j" "Y ! i = partial_row cl ml 1 chars j"
  shows "encode_step (char_map cl) i chars j (X, Y) =
         Inr (X[i := partial_row cl ml 0 chars (Suc j)], Y[i := partial_row cl ml 1 chars (Suc j)])"
proof -
  from assms have c: "chars ! j \<in> set cl" and d: "chars ! Suc j \<in> set cl"
    by (auto simp: subset_iff)
  from char2idx_in [OF assms(1) c] obtain a where a: "a < length cl"
    "char2idx (char_map cl) (chars ! j) = Inr a" "char_map cl (chars ! j) = Some a" by blast
  from char2idx_in [OF assms(1) d] obtain b where b: "b < length cl"
    "char2idx (char_map cl) (chars ! Suc j) = Inr b" "char_map cl (chars ! Suc j) = Some b" by blast
  have lx: "length (X ! i ! j) = length cl" and ly: "length (Y ! i ! j) = length cl"
    using assms by (simp_all add: partial_row_nth zeros_def)
  have sx: "set_item X i j a = Inr (X[i := partial_row cl ml 0 chars (Suc j)])"
    using assms a lx partial_row_step [of j ml a cl chars 0]
    by (simp add: set_item_def)
  have sy: "set_item Y i j b = Inr (Y[i := partial_row cl ml 1 chars (Suc j)])"
    using assms b ly partial_row_step [of j ml b cl chars 1]
    by (simp add: set_item_def)
  show ?thesis
    using assms(6) a b sx sy by (simp add: encode_step_def str_item_def)
qed

lemma inner_loop:
  assumes "distinct cl" "set chars \<subseteq> set cl"
    and "i < length X" "i < length Y"
    and "X ! i = replicate ml (zeros (length cl))" "Y ! i = replicate ml (zeros (length cl))"
    and "j \<le> ml" "j \<le> length chars - 1"
  shows "for_each (encode_step (char_map cl) i chars) [0..<j] (X, Y) =
         Inr (X[i := partial_row cl ml 0 chars j], Y[i := partial_row cl ml 1 chars j])"
  using assms(7,8)
proof (induction j)
  case 0
  have "X[i := replicate ml (zeros (length cl))] = X" "Y[i := replicate ml (zeros (length cl))] = Y"
    using assms(5,6) by (metis list_update_id)+
  then show ?case by (simp add: partial_row_0)
next
  case (Suc j)
  let ?X = "X[i := partial_row cl ml 0 chars j]" and ?Y = "Y[i := partial_row cl ml 1 chars j]"
  from Suc have IH: "for_each (encode_step (char_map cl) i chars) [0..<j] (X, Y) = Inr (?X, ?Y)"
    by simp
  have "encode_step (char_map cl) i chars j (?X, ?Y) =
        Inr (?X[i := partial_row cl ml 0 chars (Suc j)], ?Y[i := partial_row cl ml 1 chars (Suc j)])"
    using assms(1-4) Suc.prems by (intro encode_step_ok) auto
  then show ?case
    by (simp add: for_each_append IH)
qed

lemma encode_name_ok:
  assumes "distinct cl" "set chars \<subseteq> set cl"
    and "i < length X" "i < length Y"
    and "X ! i = replicate ml (zeros (length cl))" "Y ! i = replicate ml (zeros (length cl))"
    and "int (length chars) - 1 \<le> int ml"
  shows "encode_name (char_map cl) (i, chars) (X, Y) =
         Inr (X[i := encoded_row cl ml 0 chars], Y[i := encoded_row cl ml 1 chars])"
  unfolding encode_name_def range_py_def encoded_row_def fst_conv snd_conv
  using assms by (intro inner_loop) (auto simp: nat_diff_distrib)

section \<open>The outer encoding loop and the encoder\<close>

lemma partial_batch_length [simp]: "length (partial_batch cl ml sh species k) = length species"
  by (simp add: partial_batch_def)

lemma partial_batch_nth:
  "i < length species \<Longrightarrow> partial_batch cl ml sh species k ! i =
     (if i < k then encoded_row cl ml sh (species ! i) else replicate ml (zeros (length cl)))"
  by (simp add: partial_batch_def)

lemma partial_batch_0:
  "partial_batch cl ml sh species 0 = replicate (length species) (replicate ml (zeros (length cl)))"
  by (rule nth_equalityI) (auto simp: partial_batch_nth)

lemma partial_batch_step:
  "k < length species \<Longrightarrow>
   (partial_batch cl ml sh species k)[k := encoded_row cl ml sh (species ! k)]
   = partial_batch cl ml sh species (Suc k)"
  by (intro nth_equalityI) (auto simp: partial_batch_nth nth_list_update)

lemma outer_loop:
  assumes "distinct cl" "\<forall>s\<in>set species. set s \<subseteq> set cl"
    and "\<forall>s\<in>set species. int (length s) - 1 \<le> int ml"
    and "k \<le> length species"
  shows "for_each (encode_name (char_map cl)) (take k (enumerate 0 species))
           (partial_batch cl ml 0 species 0, partial_batch cl ml 1 species 0) =
         Inr (partial_batch cl ml 0 species k, partial_batch cl ml 1 species k)"
  using assms(4)
proof (induction k)
  case 0
  show ?case by simp
next
  case (Suc k)
  then have k: "k < length species" by simp
  then have tk: "take (Suc k) (enumerate 0 species) = take k (enumerate 0 species) @ [(k, species ! k)]"
    by (simp add: take_Suc_conv_app_nth nth_enumerate_eq)
  from k assms(2,3) have s: "set (species ! k) \<subseteq> set cl" "int (length (species ! k)) - 1 \<le> int ml"
    by (auto simp del: of_nat_diff)
  have "encode_name (char_map cl) (k, species ! k)
          (partial_batch cl ml 0 species k, partial_batch cl ml 1 species k) =
        Inr ((partial_batch cl ml 0 species k)[k := encoded_row cl ml 0 (species ! k)],
             (partial_batch cl ml 1 species k)[k := encoded_row cl ml 1 (species ! k)])"
    using assms(1) s k by (intro encode_name_ok) (simp_all add: partial_batch_nth)
  with Suc k show ?case
    by (simp add: tk for_each_append partial_batch_step)
qed

lemma maxlen_Nil: "maxlen [] = Inl ValueError"
  by (simp add: maxlen_def py_max_def)

lemma py_max_Max: "xs \<noteq> [] \<Longrightarrow> py_max xs = Inr (Max (set xs))"
  by (cases xs) (simp_all add: py_max_def Max.set_eq_fold [symmetric])

lemma maxlen_Max:
  "species \<noteq> [] \<Longrightarrow> maxlen species = Inr (Max (set (map (\<lambda>s. int (length s) - 1) species)))"
  unfolding maxlen_def by (rule py_max_Max) simp

lemma maxlen_bound:
  assumes "maxlen species = Inr ml" "s \<in> set species"
  shows "int (length s) - 1 \<le> ml"
proof -
  from assms(2) have ne: "species \<noteq> []" by auto
  have "int (length s) - 1 \<in> set (map (\<lambda>s. int (length s) - 1) species)"
    using assms(2) by (auto simp del: of_nat_diff)
  then have "int (length s) - 1 \<le> Max (set (map (\<lambda>s. int (length s) - 1) species))"
    by (intro Max_ge) auto
  with assms(1) maxlen_Max [OF ne] show ?thesis by simp
qed

lemma maxlen_attained:
  assumes "maxlen species = Inr ml"
  shows "\<exists>s\<in>set species. ml = int (length s) - 1"
proof -
  from assms have ne: "species \<noteq> []" by (auto simp: maxlen_Nil)
  have "Max (set (map (\<lambda>s. int (length s) - 1) species)) \<in> set (map (\<lambda>s. int (length s) - 1) species)"
    using ne by (intro Max_in) auto
  with assms maxlen_Max [OF ne] show ?thesis by (auto simp del: of_nat_diff)
qed

lemma encoder_closed_form:
  assumes "maxlen species = Inr ml" "0 \<le> ml"
  shows "encoder species =
         Inr (partial_batch (char_list species) (nat ml) 0 species (length species),
              partial_batch (char_list species) (nat ml) 1 species (length species))"
proof -
  let ?cl = "char_list species"
  have z: "np_zeros (length species) ml (n_x species) =
           Inr (replicate (length species) (replicate (nat ml) (zeros (length ?cl))))"
    using assms(2) by (simp add: np_zeros_def zeros_def char_list_length)
  have sub: "\<forall>s\<in>set species. set s \<subseteq> set ?cl"
    by (auto simp: char_list_set char_set_def)
  have len: "\<forall>s\<in>set species. int (length s) - 1 \<le> int (nat ml)"
    using maxlen_bound [OF assms(1)] assms(2) by (auto simp del: of_nat_diff)
  have "for_each (encode_name (char_map ?cl)) (take (length species) (enumerate 0 species))
           (partial_batch ?cl (nat ml) 0 species 0, partial_batch ?cl (nat ml) 1 species 0) =
         Inr (partial_batch ?cl (nat ml) 0 species (length species),
              partial_batch ?cl (nat ml) 1 species (length species))"
    using char_list_distinct sub len by (intro outer_loop) auto
  then show ?thesis
    using assms(1) z by (simp add: encoder_def partial_batch_0)
qed

lemma encoder_negative:
  assumes "maxlen species = Inr ml" "ml < 0"
  shows "encoder species = Inl ValueError"
  using assms by (simp add: encoder_def np_zeros_def)

lemma encoder_Nil: "encoder [] = Inl ValueError"
  by (simp add: encoder_def maxlen_Nil)

section \<open>The encoder contract\<close>

lemma maxlen_nonneg:
  assumes "s \<in> set species" "s \<noteq> []"
  shows "\<exists>ml. maxlen species = Inr ml \<and> 0 \<le> ml \<and> int (length s) - 1 \<le> ml"
proof -
  from assms(1) have "species \<noteq> []" by auto
  from maxlen_Max [OF this] obtain ml where ml: "maxlen species = Inr ml" by blast
  from maxlen_bound [OF ml assms(1)] assms(2) have "0 \<le> ml"
    by (cases s) auto
  with ml maxlen_bound [OF ml assms(1)] show ?thesis by blast
qed

lemma maxlen_all_empty:
  assumes "species \<noteq> []" "\<forall>s\<in>set species. s = []"
  shows "maxlen species = Inr (- 1)"
proof -
  from maxlen_Max [OF assms(1)] obtain ml where ml: "maxlen species = Inr ml" by blast
  from maxlen_attained [OF ml] assms(2) have "ml = - 1" by auto
  with ml show ?thesis by simp
qed

lemma encoded_row_nth:
  "t < ml \<Longrightarrow> encoded_row cl ml sh chars ! t =
     (if t < length chars - 1 then one_hot (length cl) (the (char_map cl (chars ! (t + sh))))
      else zeros (length cl))"
  by (auto simp: encoded_row_def partial_row_nth nat_diff_distrib)

lemma encoded_row_length [simp]: "length (encoded_row cl ml sh chars) = ml"
  by (simp add: encoded_row_def)

lemma input_row_closed:
  assumes "maxlen species = Inr ml" "0 \<le> ml" "i < length species"
  shows "input_row species i = Inr (encoded_row (char_list species) (nat ml) 0 (species ! i))"
    and "target_row species i = Inr (encoded_row (char_list species) (nat ml) 1 (species ! i))"
  using assms
  by (simp_all add: input_row_def target_row_def encoder_closed_form get_row_def partial_batch_nth)

lemma step_closed:
  assumes "maxlen species = Inr ml" "0 \<le> ml" "i < length species"
  shows "input_step species i t =
           (if int t < ml then Inr (encoded_row (char_list species) (nat ml) 0 (species ! i) ! t)
            else Inl IndexError)"
    and "target_step species i t =
           (if int t < ml then Inr (encoded_row (char_list species) (nat ml) 1 (species ! i) ! t)
            else Inl IndexError)"
  using assms
  by (auto simp: input_step_def target_step_def encoder_closed_form get_step_def partial_batch_nth)

lemma idx2char_char_map:
  assumes "c \<in> char_set species"
  shows "the (char_map (char_list species) c) < n_x species"
    and "idx2char (char_list species) (the (char_map (char_list species) c)) = Inr c"
proof -
  from char2idx_ok [OF assms] obtain k where k: "k < n_x species" "char_list species ! k = c"
    "char2idx (char_map (char_list species)) c = Inr k" by blast
  then have "char_map (char_list species) c = Some k"
    by (auto simp: char2idx_def split: option.splits)
  with k show "the (char_map (char_list species) c) < n_x species"
    and "idx2char (char_list species) (the (char_map (char_list species) c)) = Inr c"
    by (simp_all add: idx2char_def char_list_length)
qed

lemma nth_in_char_set: "i < length species \<Longrightarrow> t < length (species ! i) \<Longrightarrow> species ! i ! t \<in> char_set species"
  by (auto simp: char_set_def intro!: bexI [of _ "species ! i"])

text \<open>
  Claim C1 (encoder contract). For every corpus of normalized names (a normalized name
  ends in the terminator, so it is never empty), every sample \<open>i\<close> and every step
  \<open>t < length name - 1\<close>, the input array at \<open>[i, t, :]\<close> is the one-hot vector of
  character \<open>t\<close> of the name and the target array at \<open>[i, t, :]\<close> is the one-hot
  vector of character \<open>t + 1\<close>; for every \<open>t\<close> from \<open>length name - 1\<close> up to
  \<open>maxlen\<close>, both vectors are all-zero. The index of a one-hot vector is tied to its
  character by the notebook's own \<open>idx2char\<close>.
\<close>

theorem encoder_contract:
  assumes "\<forall>s\<in>set species. s \<noteq> []" and "i < length species"
  shows "\<exists>ml. maxlen species = Inr ml \<and>
     (\<forall>t. t < length (species ! i) - 1 \<longrightarrow>
        (\<exists>a b. idx2char (char_list species) a = Inr (species ! i ! t) \<and>
               input_step species i t = Inr (one_hot (n_x species) a) \<and>
               idx2char (char_list species) b = Inr (species ! i ! (t + 1)) \<and>
               target_step species i t = Inr (one_hot (n_x species) b))) \<and>
     (\<forall>t. length (species ! i) - 1 \<le> t \<and> int t < ml \<longrightarrow>
        input_step species i t = Inr (zeros (n_x species)) \<and>
        target_step species i t = Inr (zeros (n_x species)))"
proof -
  let ?s = "species ! i" and ?cl = "char_list species"
  from assms have si: "?s \<in> set species" "?s \<noteq> []" by auto
  from maxlen_nonneg [OF si] obtain ml where ml: "maxlen species = Inr ml" "0 \<le> ml"
    "int (length ?s) - 1 \<le> ml" by blast
  note st = step_closed [OF ml(1,2) assms(2)]
  have hot: "\<exists>a b. idx2char ?cl a = Inr (?s ! t) \<and> input_step species i t = Inr (one_hot (n_x species) a) \<and>
               idx2char ?cl b = Inr (?s ! (t + 1)) \<and> target_step species i t = Inr (one_hot (n_x species) b)"
    if t: "t < length ?s - 1" for t
  proof -
    from t ml(3) have tl: "int t < ml" "t < nat ml" by auto
    from t have c: "?s ! t \<in> char_set species" and d: "?s ! (t + 1) \<in> char_set species"
      using assms(2) by (auto intro!: nth_in_char_set)
    show ?thesis
      using tl t idx2char_char_map(2) [OF c] idx2char_char_map(2) [OF d]
      by (intro exI [of _ "the (char_map ?cl (?s ! t))"] exI [of _ "the (char_map ?cl (?s ! (t + 1)))"])
         (simp add: st encoded_row_nth char_list_length)
  qed
  have pad: "input_step species i t = Inr (zeros (n_x species)) \<and>
             target_step species i t = Inr (zeros (n_x species))"
    if "length ?s - 1 \<le> t" "int t < ml" for t
    using that by (simp add: st encoded_row_nth char_list_length)
  from ml(1) hot pad show ?thesis by blast
qed

text \<open>
  The example of the specification: for the corpus \<open>["ecoli@"]\<close> the arrays have
  shape (1, 5, 6); input[0,0] is one-hot for e, target[0,0] for c, input[0,4] for i and
  target[0,4] for the terminator. In the corpus \<open>["ab@", "ecoli@"]\<close> step 2 of the
  first name is padding.
\<close>

theorem encoder_contract_witness:
  "maxlen [''ecoli@''] = Inr 5 \<and> n_x [''ecoli@''] = 6 \<and>
   (\<exists>a b. idx2char (char_list [''ecoli@'']) a = Inr (CHR ''e'') \<and>
          input_step [''ecoli@''] 0 0 = Inr (one_hot 6 a) \<and>
          idx2char (char_list [''ecoli@'']) b = Inr (CHR ''c'') \<and>
          target_step [''ecoli@''] 0 0 = Inr (one_hot 6 b)) \<and>
   (\<exists>a b. idx2char (char_list [''ecoli@'']) a = Inr (CHR ''i'') \<and>
          input_step [''ecoli@''] 0 4 = Inr (one_hot 6 a) \<and>
          idx2char (char_list [''ecoli@'']) b = Inr (CHR ''@'') \<and>
          target_step [''ecoli@''] 0 4 = Inr (one_hot 6 b)) \<and>
   maxlen [''ab@'', ''ecoli@''] = Inr 5 \<and>
   input_step [''ab@'', ''ecoli@''] 0 2 = Inr (zeros (n_x [''ab@'', ''ecoli@''])) \<and>
   target_step [''ab@'', ''ecoli@''] 0 2 = Inr (zeros (n_x [''ab@'', ''ecoli@'']))"
proof -
  have h: "\<forall>s\<in>set [''ecoli@'']. s \<noteq> []" by simp
  have i: "0 < length [''ecoli@'']" by simp
  have n: "n_x [''ecoli@''] = 6" by code_simp
  have m: "maxlen [''ecoli@''] = Inr 5" by code_simp
  from encoder_contract [OF h i] obtain ml where
    c: "\<forall>t. t < length ([''ecoli@''] ! 0) - 1 \<longrightarrow>
        (\<exists>a b. idx2char (char_list [''ecoli@'']) a = Inr ([''ecoli@''] ! 0 ! t) \<and>
               input_step [''ecoli@''] 0 t = Inr (one_hot (n_x [''ecoli@'']) a) \<and>
               idx2char (char_list [''ecoli@'']) b = Inr ([''ecoli@''] ! 0 ! (t + 1)) \<and>
               target_step [''ecoli@''] 0 t = Inr (one_hot (n_x [''ecoli@'']) b))"
    by blast
  have h2: "\<forall>s\<in>set [''ab@'', ''ecoli@'']. s \<noteq> []" by simp
  have i2: "0 < length [''ab@'', ''ecoli@'']" by simp
  have m2: "maxlen [''ab@'', ''ecoli@''] = Inr 5" by code_simp
  from encoder_contract [OF h2 i2] obtain ml2 where
    ml2: "maxlen [''ab@'', ''ecoli@''] = Inr ml2" and
    p: "\<forall>t. length ([''ab@'', ''ecoli@''] ! 0) - 1 \<le> t \<and> int t < ml2 \<longrightarrow>
        input_step [''ab@'', ''ecoli@''] 0 t = Inr (zeros (n_x [''ab@'', ''ecoli@''])) \<and>
        target_step [''ab@'', ''ecoli@''] 0 t = Inr (zeros (n_x [''ab@'', ''ecoli@'']))"
    by blast
  from ml2 m2 have "ml2 = 5" by simp
  with p [rule_format, of 2] have
    "input_step [''ab@'', ''ecoli@''] 0 2 = Inr (zeros (n_x [''ab@'', ''ecoli@''])) \<and>
     target_step [''ab@'', ''ecoli@''] 0 2 = Inr (zeros (n_x [''ab@'', ''ecoli@'']))"
    by simp
  with c [rule_format, of 0] c [rule_format, of 4] n m m2 show ?thesis by simp
qed

lemma hot_index_one_hot: "k < n \<Longrightarrow> hot_index (one_hot n k) = Some k"
  by (auto simp: hot_index_def one_hot_def find_Some_iff)

lemma hot_index_zeros: "hot_index (zeros n) = None"
  by (auto simp: hot_index_def zeros_def find_None_iff)

text \<open>
  Claim C2 as stated fails at the last valid step \<open>t = length name - 2\<close>. For the
  corpus \<open>["ab@", "abcd@"]\<close>, sample 0 and step 1, the target vector is the one-hot
  vector of the terminator (index 0) while the input vector at step 2 is all-zero padding
  and has no one-hot index. For the corpus \<open>["ab@"]\<close> step 2 is outside the array and
  reading it raises IndexError.
\<close>

theorem shift_invariant_counterexample:
  "target_step [''ab@'', ''abcd@''] 0 1 = Inr [1, 0, 0, 0, 0] \<and>
   hot_index [1, 0, 0, 0, 0] = Some 0 \<and>
   input_step [''ab@'', ''abcd@''] 0 2 = Inr [0, 0, 0, 0, 0] \<and>
   hot_index [0, 0, 0, 0, 0] = None \<and>
   input_step [''ab@''] 0 2 = Inl IndexError"
  by code_simp

text \<open>
  Claim C2, amended (shift invariant). For every corpus of normalized names, every sample
  \<open>i\<close> and every step \<open>t\<close> with \<open>t + 1 < length name - 1\<close>, the target vector at
  step \<open>t\<close> and the input vector at step \<open>t + 1\<close> are the same one-hot vector, the
  one of character \<open>t + 1\<close>. At the last valid step \<open>t = length name - 2\<close> the target
  is the one-hot vector of the name's last character, and the input at step \<open>t + 1\<close> is
  all-zero padding, or out of range when the name is a longest one.
\<close>

theorem shift_invariant:
  assumes "\<forall>s\<in>set species. s \<noteq> []" and "i < length species"
  shows "(t + 1 < length (species ! i) - 1 \<longrightarrow>
           (\<exists>v a. target_step species i t = Inr v \<and> input_step species i (t + 1) = Inr v \<and>
                  hot_index v = Some a \<and>
                  idx2char (char_list species) a = Inr (species ! i ! (t + 1)))) \<and>
         (t + 1 = length (species ! i) - 1 \<longrightarrow>
           (\<exists>v a. target_step species i t = Inr v \<and> hot_index v = Some a \<and>
                  idx2char (char_list species) a = Inr (last (species ! i))) \<and>
           (input_step species i (t + 1) = Inr (zeros (n_x species)) \<or>
            input_step species i (t + 1) = Inl IndexError))"
proof -
  let ?s = "species ! i" and ?cl = "char_list species"
  from assms have si: "?s \<in> set species" "?s \<noteq> []" by auto
  from maxlen_nonneg [OF si] obtain ml where ml: "maxlen species = Inr ml" "0 \<le> ml"
    "int (length ?s) - 1 \<le> ml" by blast
  note st = step_closed [OF ml(1,2) assms(2)]
  have d: "?s ! (t + 1) \<in> char_set species" if "t + 1 \<le> length ?s - 1"
    using that si(2) assms(2) by (intro nth_in_char_set) (auto simp: Suc_le_eq)
  have tgt: "target_step species i t = Inr (one_hot (n_x species) (the (char_map ?cl (?s ! (t + 1)))))"
    if "t + 1 \<le> length ?s - 1"
    using that ml(3) by (simp add: st encoded_row_nth char_list_length)
  have A: "\<exists>v a. target_step species i t = Inr v \<and> input_step species i (t + 1) = Inr v \<and>
                  hot_index v = Some a \<and> idx2char ?cl a = Inr (?s ! (t + 1))"
    if t: "t + 1 < length ?s - 1"
  proof -
    from t have le: "t + 1 \<le> length ?s - 1" by simp
    have "input_step species i (t + 1) = Inr (one_hot (n_x species) (the (char_map ?cl (?s ! (t + 1)))))"
      using t ml(3) by (simp add: st encoded_row_nth char_list_length)
    with tgt [OF le] idx2char_char_map [OF d [OF le]] show ?thesis
      by (auto simp: hot_index_one_hot)
  qed
  have B: "(\<exists>v a. target_step species i t = Inr v \<and> hot_index v = Some a \<and>
                  idx2char ?cl a = Inr (last ?s)) \<and>
           (input_step species i (t + 1) = Inr (zeros (n_x species)) \<or>
            input_step species i (t + 1) = Inl IndexError)"
    if t: "t + 1 = length ?s - 1"
  proof -
    from t have le: "t + 1 \<le> length ?s - 1" by simp
    from t si(2) have l: "last ?s = ?s ! (t + 1)" by (simp add: last_conv_nth)
    have "input_step species i (t + 1) = Inr (zeros (n_x species)) \<or>
          input_step species i (t + 1) = Inl IndexError"
      using t by (simp add: st encoded_row_nth char_list_length)
    with tgt [OF le] idx2char_char_map [OF d [OF le]] l show ?thesis
      by (auto simp: hot_index_one_hot)
  qed
  from A B show ?thesis by blast
qed

text \<open>
  The amended C2 on the corpus \<open>["ab@", "abcd@"]\<close>: an inner step of sample 1, and
  the last valid step of sample 0.
\<close>

theorem shift_invariant_witness:
  "(\<exists>v a. target_step [''ab@'', ''abcd@''] 1 0 = Inr v \<and>
          input_step [''ab@'', ''abcd@''] 1 1 = Inr v \<and> hot_index v = Some a \<and>
          idx2char (char_list [''ab@'', ''abcd@'']) a = Inr (CHR ''b'')) \<and>
   (\<exists>v a. target_step [''ab@'', ''abcd@''] 0 1 = Inr v \<and> hot_index v = Some a \<and>
          idx2char (char_list [''ab@'', ''abcd@'']) a = Inr (CHR ''@'')) \<and>
   (input_step [''ab@'', ''abcd@''] 0 2 = Inr (zeros (n_x [''ab@'', ''abcd@''])) \<or>
    input_step [''ab@'', ''abcd@''] 0 2 = Inl IndexError)"
proof -
  have h: "\<forall>s\<in>set [''ab@'', ''abcd@'']. s \<noteq> []" by simp
  have i: "1 < length [''ab@'', ''abcd@'']" and j: "0 < length [''ab@'', ''abcd@'']"
    by simp_all
  from shift_invariant [OF h i, of 0] shift_invariant [OF h j, of 1] show ?thesis
    by (simp add: numeral_2_eq_2)
qed

section \<open>Decoding and encoder errors\<close>

lemma decode_zeros: "decode cl (replicate k (zeros n)) = Inr []"
  by (induction k) (simp_all add: hot_index_zeros)

lemma decode_hot:
  assumes "distinct cl" "set cs \<subseteq> set cl"
  shows "decode cl (map (\<lambda>c. one_hot (length cl) (the (char_map cl c))) cs @ rest) =
         bnd (decode cl rest) (\<lambda>s. Inr (cs @ s))"
  using assms(2)
proof (induction cs)
  case Nil
  show ?case by (cases "decode cl rest") simp_all
next
  case (Cons c cs)
  then have "c \<in> set cl" by simp
  from char2idx_in [OF assms(1) this] obtain k where k: "k < length cl" "char_map cl c = Some k"
    by blast
  from \<open>c \<in> set cl\<close> obtain j where j: "j < length cl" "cl ! j = c"
    by (auto simp: in_set_conv_nth)
  with char_map_nth [OF assms(1) j(1)] k have "cl ! k = c" by simp
  with k Cons show ?case
    by (cases "decode cl rest") (simp_all add: hot_index_one_hot idx2char_def)
qed

lemma partial_row_split:
  assumes "j \<le> ml" "j \<le> length chars"
  shows "partial_row cl ml 0 chars j =
         map (\<lambda>c. one_hot (length cl) (the (char_map cl c))) (take j chars) @
         replicate (ml - j) (zeros (length cl))"
  using assms by (intro nth_equalityI) (auto simp: partial_row_nth nth_append)

lemma decode_encoded_row:
  assumes "distinct cl" "set chars \<subseteq> set cl" "int (length chars) - 1 \<le> int ml"
  shows "decode cl (encoded_row cl ml 0 chars) = Inr (butlast chars)"
proof -
  let ?j = "nat (int (length chars) - 1)"
  have j: "?j \<le> ml" "?j \<le> length chars" using assms(3) by auto
  have "?j = length chars - 1" by auto
  then have t: "take ?j chars = butlast chars"
    by (simp add: butlast_conv_take)
  have "set (butlast chars) \<subseteq> set cl"
    using assms(2) by (auto dest: in_set_butlastD)
  from decode_hot [OF assms(1) this] show ?thesis
    unfolding encoded_row_def partial_row_split [OF j] t
    by (simp add: decode_zeros)
qed

text \<open>
  Claim C3 as stated fails: the input row holds the characters of a name up to, but not
  including, its last one. Decoding the input row of \<open>"ecoli@"\<close> gives \<open>"ecoli"\<close>,
  not the name of the corpus.
\<close>

theorem round_trip_counterexample:
  "bnd (input_row [''ecoli@''] 0) (decode (char_list [''ecoli@''])) = Inr ''ecoli'' \<and>
   bnd (input_row [''ecoli@''] 0) (decode (char_list [''ecoli@''])) \<noteq> Inr ([''ecoli@''] ! 0)"
  by code_simp

text \<open>
  Claim C3, amended (round trip). For every name of a corpus of normalized names,
  decoding its input row (every non-zero time step through \<open>idx2char\<close>, all-zero
  steps skipped) gives the name without its last character, which for a terminated name
  is the name without the terminator.
\<close>

theorem round_trip:
  assumes "\<forall>s\<in>set species. s \<noteq> []" and "i < length species"
  shows "bnd (input_row species i) (decode (char_list species)) = Inr (butlast (species ! i))"
proof -
  let ?s = "species ! i" and ?cl = "char_list species"
  from assms have si: "?s \<in> set species" "?s \<noteq> []" by auto
  from maxlen_nonneg [OF si] obtain ml where ml: "maxlen species = Inr ml" "0 \<le> ml"
    "int (length ?s) - 1 \<le> ml" by blast
  have sub: "set ?s \<subseteq> set ?cl"
    using si(1) by (auto simp: char_list_set char_set_def)
  have "decode ?cl (encoded_row ?cl (nat ml) 0 ?s) = Inr (butlast ?s)"
    using ml(2,3) by (intro decode_encoded_row char_list_distinct sub) simp
  then show ?thesis
    by (simp add: input_row_closed [OF ml(1,2) assms(2)])
qed

text \<open>
  The amended C3 on the second name of the corpus \<open>["ab@", "ecoli@"]\<close>.
\<close>

theorem round_trip_witness:
  "bnd (input_row [''ab@'', ''ecoli@''] 1) (decode (char_list [''ab@'', ''ecoli@''])) = Inr ''ecoli''"
proof -
  have h: "\<forall>s\<in>set [''ab@'', ''ecoli@'']. s \<noteq> []" by simp
  have i: "1 < length [''ab@'', ''ecoli@'']" by simp
  from round_trip [OF h i] show ?thesis by simp
qed

text \<open>
  Claim C9 as stated fails: the encoder can raise. An empty file gives an empty corpus,
  and \<^verbatim>\<open>max\<close> of the empty list raises ValueError.
\<close>

theorem encoder_errors_counterexample:
  "load_species [] = [] \<and> encoder (load_species []) = Inl ValueError"
  by code_simp

lemma encoded_row_short:
  assumes "length chars \<le> 1"
  shows "encoded_row cl ml sh chars = replicate ml (zeros (length cl))"
  using assms by (intro nth_equalityI) (auto simp: encoded_row_nth)

text \<open>
  Claim C9, amended (encoder errors). The encoding cell raises ValueError when the corpus
  holds no non-empty string (the empty corpus: \<^verbatim>\<open>max\<close> of an empty list; only
  zero-length strings: a negative dimension for \<^verbatim>\<open>np.zeros\<close>). On every other
  corpus it raises nothing, and for every name of length at most 1 the input row and the
  target row are \<open>maxlen\<close> all-zero vectors.
\<close>

theorem encoder_errors:
  "((\<forall>s\<in>set species. s = []) \<longrightarrow> encoder species = Inl ValueError) \<and>
   ((\<exists>s\<in>set species. s \<noteq> []) \<longrightarrow>
      (\<exists>X Y ml. encoder species = Inr (X, Y) \<and> maxlen species = Inr ml \<and> 0 \<le> ml \<and>
         (\<forall>i<length species. length (species ! i) \<le> 1 \<longrightarrow>
            input_row species i = Inr (replicate (nat ml) (zeros (n_x species))) \<and>
            target_row species i = Inr (replicate (nat ml) (zeros (n_x species))))))"
proof (intro conjI impI)
  assume e: "\<forall>s\<in>set species. s = []"
  show "encoder species = Inl ValueError"
  proof (cases "species = []")
    case True
    then show ?thesis by (simp add: encoder_Nil)
  next
    case False
    from maxlen_all_empty [OF False e] show ?thesis
      by (intro encoder_negative [of _ "- 1"]) simp_all
  qed
next
  assume "\<exists>s\<in>set species. s \<noteq> []"
  then obtain s where s: "s \<in> set species" "s \<noteq> []" by blast
  from maxlen_nonneg [OF s] obtain ml where ml: "maxlen species = Inr ml" "0 \<le> ml" by blast
  have "input_row species i = Inr (replicate (nat ml) (zeros (n_x species))) \<and>
        target_row species i = Inr (replicate (nat ml) (zeros (n_x species)))"
    if "i < length species" "length (species ! i) \<le> 1" for i
    using that by (simp add: input_row_closed [OF ml] encoded_row_short char_list_length)
  with encoder_closed_form [OF ml] ml
  show "\<exists>X Y ml. encoder species = Inr (X, Y) \<and> maxlen species = Inr ml \<and> 0 \<le> ml \<and>
         (\<forall>i<length species. length (species ! i) \<le> 1 \<longrightarrow>
            input_row species i = Inr (replicate (nat ml) (zeros (n_x species))) \<and>
            target_row species i = Inr (replicate (nat ml) (zeros (n_x species))))"
    by blast
qed

text \<open>
  The amended C9 on a corpus of two zero-length strings, and on the corpus
  \<open>["@", "ab@"]\<close>, whose first name is the terminator alone.
\<close>

theorem encoder_errors_witness:
  "encoder [[], []] = Inl ValueError \<and>
   (\<exists>X Y. encoder [''@'', ''ab@''] = Inr (X, Y)) \<and>
   input_row [''@'', ''ab@''] 0 = Inr [[0, 0, 0], [0, 0, 0]] \<and>
   target_row [''@'', ''ab@''] 0 = Inr [[0, 0, 0], [0, 0, 0]]"
proof -
  have a: "\<forall>s\<in>set [[], []::string]. s = []" by simp
  have b: "\<exists>s\<in>set [''@'', ''ab@'']. s \<noteq> []" by simp
  have m: "maxlen [''@'', ''ab@''] = Inr 2" and n: "n_x [''@'', ''ab@''] = 3" by code_simp+
  have z: "replicate (nat 2) (zeros 3) = [[0, 0, 0], [0, 0, 0]]" by code_simp
  from encoder_errors [of "[[], []]"] a have 1: "encoder [[], []] = Inl ValueError" by blast
  from encoder_errors [of "[''@'', ''ab@'']"] b obtain X Y ml where
    r: "encoder [''@'', ''ab@''] = Inr (X, Y)" "maxlen [''@'', ''ab@''] = Inr ml"
    "\<forall>i<length [''@'', ''ab@'']. length ([''@'', ''ab@''] ! i) \<le> 1 \<longrightarrow>
       input_row [''@'', ''ab@''] i = Inr (replicate (nat ml) (zeros (n_x [''@'', ''ab@'']))) \<and>
       target_row [''@'', ''ab@''] i = Inr (replicate (nat ml) (zeros (n_x [''@'', ''ab@''])))"
    by blast
  from r(2) m have "ml = 2" by simp
  with r(3) [rule_format, of 0] n z r(1) 1 show ?thesis by simp
qed

section \<open>The sampling loop\<close>

lemma rbind_simps [simp]:
  "rbind (Returned v) f = f v" "rbind (Raised e) f = Raised e"
  "rbind Unfinished f = Unfinished" "rbind NoSuchDraw f = NoSuchDraw"
  by (simp_all add: rbind_def)

lemma rbind_Returned: "rbind r f = Returned v \<longleftrightarrow> (\<exists>u. r = Returned u \<and> f u = Returned v)"
  by (cases r) simp_all

lemma lift_Returned: "lift r = Returned v \<longleftrightarrow> r = Inr v"
  by (cases r) (simp_all add: lift_def)

lemma lift_simps [simp]: "lift (Inr v) = Returned v" "lift (Inl e) = Raised e"
  by (simp_all add: lift_def)

lemma choice_Returned: "choice n p d = Returned k \<longleftrightarrow> length p = n \<and> k = d \<and> d < n \<and> 0 < p ! d"
  by (auto simp: choice_def)

lemma randint_Returned: "randint lo hi d = Returned k \<longleftrightarrow> k = d \<and> lo \<le> d \<and> d < hi"
  by (auto simp: randint_def)

lemma idx2char_Inr: "idx2char cl k = Inr c \<longleftrightarrow> k < length cl \<and> cl ! k = c"
  by (auto simp: idx2char_def)

lemma sample_step_break:
  assumes "sample_step predict cl n d s = Returned None"
  shows "idx2char cl d = Inr terminator"
  using assms
  by (auto simp: sample_step_def rbind_Returned lift_Returned choice_Returned alloc_def
           split: if_splits)

lemma sample_step_continue:
  assumes "sample_step predict cl n d s = Returned (Some s')"
  shows "\<exists>c ext. idx2char cl d = Inr c \<and> c \<noteq> terminator \<and>
           generated s' = generated s @ [c] \<and> heap s' = heap s @ ext"
  using assms
  by (auto simp: sample_step_def rbind_Returned lift_Returned choice_Returned alloc_def
           split: if_splits)

lemma sample_loop_Returned:
  assumes "sample_loop predict cl n draws s = Returned (s', rest)"
  shows "\<exists>ds d ext. draws = ds @ d # rest \<and> idx2char cl d = Inr terminator \<and>
           list_all (\<lambda>k. k < length cl \<and> cl ! k \<noteq> terminator) ds \<and>
           generated s' = generated s @ map (\<lambda>k. cl ! k) ds \<and>
           heap s' = heap s @ ext"
  using assms
proof (induction draws arbitrary: s)
  case Nil
  then show ?case by (simp add: rbind_Returned)
next
  case (Cons d draws)
  show ?case
  proof (cases "sample_step predict cl n d s")
    case (Returned o1)
    show ?thesis
    proof (cases o1)
      case None
      with Returned Cons.prems have "s' = s" "rest = draws" by simp_all
      moreover from Returned None have "idx2char cl d = Inr terminator"
        by (simp add: sample_step_break)
      ultimately show ?thesis
        by (intro exI [of _ "[]"] exI [of _ d]) simp
    next
      case (Some s1)
      with Returned Cons.prems have "sample_loop predict cl n draws s1 = Returned (s', rest)"
        by simp
      from Cons.IH [OF this] obtain ds d' ext where
        r: "draws = ds @ d' # rest" "idx2char cl d' = Inr terminator"
        "list_all (\<lambda>k. k < length cl \<and> cl ! k \<noteq> terminator) ds"
        "generated s' = generated s1 @ map (\<lambda>k. cl ! k) ds" "heap s' = heap s1 @ ext"
        by blast
      from Returned Some sample_step_continue [of predict cl n d s s1] obtain c ext1 where
        c: "idx2char cl d = Inr c" "c \<noteq> terminator" "generated s1 = generated s @ [c]"
        "heap s1 = heap s @ ext1" by blast
      from r c show ?thesis
        by (intro exI [of _ "d # ds"] exI [of _ d'] exI [of _ "ext1 @ ext"])
           (simp add: idx2char_Inr)
    qed
  qed (use Cons.prems in simp_all)
qed

section \<open>The prefix cell\<close>

lemma partial_row_full:
  "partial_row cl (length chars) 0 chars (length chars) =
   map (\<lambda>c. one_hot (length cl) (the (char_map cl c))) chars"
  by (simp add: partial_row_split)

lemma encode_prefix_step_ok:
  assumes "distinct cl" "set prefix \<subseteq> set cl" "j < length prefix"
  shows "encode_prefix_step (char_map cl) prefix (length h) j
           (h @ [[partial_row cl (length prefix) 0 prefix j]]) =
         Inr (h @ [[partial_row cl (length prefix) 0 prefix (Suc j)]])"
proof -
  from assms have "prefix ! j \<in> set cl" by (auto simp: subset_iff)
  from char2idx_in [OF assms(1) this] obtain a where a: "a < length cl"
    "char2idx (char_map cl) (prefix ! j) = Inr a" "char_map cl (prefix ! j) = Some a" by blast
  have "set_item [partial_row cl (length prefix) 0 prefix j] 0 j a =
        Inr [partial_row cl (length prefix) 0 prefix (Suc j)]"
    using assms(3) a partial_row_step [of j "length prefix" a cl prefix 0]
    by (simp add: set_item_def partial_row_nth zeros_def)
  with assms(3) a show ?thesis
    by (simp add: encode_prefix_step_def str_item_def)
qed

lemma encode_prefix_loop:
  assumes "distinct cl" "set prefix \<subseteq> set cl" "j \<le> length prefix"
  shows "for_each (encode_prefix_step (char_map cl) prefix (length h)) [0..<j]
           (h @ [[partial_row cl (length prefix) 0 prefix 0]]) =
         Inr (h @ [[partial_row cl (length prefix) 0 prefix j]])"
  using assms(3)
proof (induction j)
  case 0
  show ?case by simp
next
  case (Suc j)
  with encode_prefix_step_ok [OF assms(1,2), of j h] show ?case
    by (simp add: for_each_append)
qed

lemma encode_prefix_closed:
  assumes "set prefix \<subseteq> char_set species"
  shows "encode_prefix species prefix h =
         Inr (h @ [[map (\<lambda>c. one_hot (n_x species) (the (char_map (char_list species) c))) prefix]],
              length h)"
proof -
  let ?cl = "char_list species"
  have z: "np_zeros 1 (int (length prefix)) (n_x species) =
           Inr [partial_row ?cl (length prefix) 0 prefix 0]"
    by (simp add: np_zeros_def partial_row_0 zeros_def char_list_length)
  from assms have sub: "set prefix \<subseteq> set ?cl" by (simp add: char_list_set)
  from encode_prefix_loop [OF char_list_distinct sub, of "length prefix" h]
  show ?thesis
    unfolding encode_prefix_def z
    by (simp add: alloc_def range_py_def partial_row_full char_list_length)
qed

lemma encode_prefix_Inr:
  assumes "encode_prefix species prefix h = Inr (h1, staph)"
  shows "staph = length h \<and> (\<exists>A. h1 = h @ [A])"
proof -
  have "\<exists>A. h' = h @ [A]"
    if "for_each (encode_prefix_step cm prefix (length h)) ts (h @ [B]) = Inr h'" for cm ts B h'
    using that
  proof (induction ts arbitrary: B)
    case Nil
    then show ?case by auto
  next
    case (Cons t ts)
    then show ?case
      by (auto simp: encode_prefix_step_def bnd_def split: sum.splits)
  qed
  with assms show ?thesis
    by (auto simp: encode_prefix_def bnd_def alloc_def split: sum.splits)
qed

lemma candidates_loop_Returned:
  assumes "candidates_loop predict species prefix staph k (h, cands, draws) = Returned (h', cands', rest)"
  shows "(\<exists>ext. h' = h @ ext) \<and>
         (\<forall>c\<in>cands'. c \<in> cands \<or>
            (\<exists>ds. c = prefix @ map (\<lambda>k. char_list species ! k) ds \<and> set ds \<subseteq> set draws \<and>
               list_all (\<lambda>k. k < length (char_list species) \<and> char_list species ! k \<noteq> terminator) ds))"
  using assms
proof (induction k arbitrary: h cands draws)
  case 0
  then show ?case by simp
next
  case (Suc k)
  let ?cl = "char_list species"
  from Suc.prems obtain s1 r1 where
    run: "sample_loop predict ?cl (n_x species) draws
            \<lparr>heap = h @ [h ! staph], x = length h, generated = []\<rparr> = Returned (s1, r1)"
    and rest: "candidates_loop predict species prefix staph k
            (heap s1, insert (prefix @ generated s1) cands, r1) = Returned (h', cands', rest)"
    by (auto simp: alloc_def rbind_Returned)
  from sample_loop_Returned [OF run] obtain ds d ext where
    r: "draws = ds @ d # r1" "list_all (\<lambda>k. k < length ?cl \<and> ?cl ! k \<noteq> terminator) ds"
    "generated s1 = map (\<lambda>k. ?cl ! k) ds" "heap s1 = (h @ [h ! staph]) @ ext"
    by auto
  from Suc.IH [OF rest] obtain ext' where
    e: "h' = heap s1 @ ext'"
    and c: "\<forall>c\<in>cands'. c \<in> insert (prefix @ generated s1) cands \<or>
            (\<exists>ds. c = prefix @ map (\<lambda>k. ?cl ! k) ds \<and> set ds \<subseteq> set r1 \<and>
               list_all (\<lambda>k. k < length ?cl \<and> ?cl ! k \<noteq> terminator) ds)"
    by blast
  have "\<exists>ext. h' = h @ ext" using e r(4) by simp
  moreover have "c \<in> cands \<or>
            (\<exists>ds. c = prefix @ map (\<lambda>k. ?cl ! k) ds \<and> set ds \<subseteq> set draws \<and>
               list_all (\<lambda>k. k < length ?cl \<and> ?cl ! k \<noteq> terminator) ds)"
    if "c \<in> cands'" for c
  proof -
    from c that consider "c = prefix @ generated s1" | "c \<in> cands"
      | ds' where "c = prefix @ map (\<lambda>k. ?cl ! k) ds'" "set ds' \<subseteq> set r1"
          "list_all (\<lambda>k. k < length ?cl \<and> ?cl ! k \<noteq> terminator) ds'"
      by blast
    then show ?thesis
    proof cases
      case 1
      with r show ?thesis by (intro disjI2 exI [of _ ds]) auto
    next
      case 2
      then show ?thesis by simp
    next
      case 3
      with r(1) show ?thesis by (intro disjI2 exI [of _ ds']) auto
    qed
  qed
  ultimately show ?case by blast
qed

section \<open>The terminator in sampled names\<close>

text \<open>
  Claim C4 (the terminator never occurs in the returned string, with or without a
  prefix) fails on the code for the sampler without a prefix. The corpus
  \<open>["sp.1@"]\<close> has two characters that sort before the terminator, so the terminator
  has index 2 in \<open>char_list\<close>; \<^verbatim>\<open>np.random.randint(2, n_x)\<close> can return 2, and
  the first character of the name is then the terminator. With the terminator sampled
  next, the cell prints the name \<open>"@"\<close>.
\<close>

theorem terminator_in_generated_name:
  "char_list [''sp.1@''] = ''.1@ps'' \<and>
   generate_name (const_model [0, 0, 1, 0, 0]) [''sp.1@''] [2, 2] [] =
     Returned (''@'', [[[[0, 0, 1, 0, 0]]]], [])"
  by code_simp

lemma generate_name_Returned:
  assumes "generate_name predict species draws h = Returned (name, h', rest)"
  shows "\<exists>d ds c z s1. draws = d # ds \<and> 2 \<le> d \<and> d < n_x species \<and>
           idx2char (char_list species) d = Inr c \<and>
           sample_loop predict (char_list species) (n_x species) ds
             \<lparr>heap = h @ [z], x = length h, generated = [c]\<rparr> = Returned (s1, rest) \<and>
           name = generated s1 \<and> h' = heap s1"
proof (cases draws)
  case Nil
  with assms show ?thesis by (simp split: if_splits)
next
  case (Cons d ds)
  with assms show ?thesis
    by (simp add: rbind_Returned lift_Returned randint_Returned alloc_def) blast
qed

lemma candidates_loop_Suc:
  assumes "candidates_loop predict species prefix staph (Suc k) (h, cands, draws) = Returned r"
  shows "\<exists>s1 r1. sample_loop predict (char_list species) (n_x species) draws
             \<lparr>heap = h @ [h ! staph], x = length h, generated = []\<rparr> = Returned (s1, r1) \<and>
           candidates_loop predict species prefix staph k
             (heap s1, insert (prefix @ generated s1) cands, r1) = Returned r"
  using assms by (auto simp: alloc_def rbind_Returned)

text \<open>
  The loop itself keeps the terminator out. In every run of the sampling loop that
  returns, no character that the loop appends to \<open>generated\<close> is the terminator. So
  the name printed by the sampler without a prefix has no terminator after its first
  character (which is drawn before the loop), and the string that one prefix-seeded run
  adds to the candidates is the prefix followed by characters none of which is the
  terminator.
\<close>

theorem sampler_excludes_terminator:
  "(sample_loop predict cl n draws s = Returned (s', rest) \<longrightarrow>
      (\<exists>sampled. generated s' = generated s @ sampled \<and> terminator \<notin> set sampled)) \<and>
   (generate_name predict species draws h = Returned (name, h', rest) \<longrightarrow>
      (\<exists>c sampled. name = c # sampled \<and> terminator \<notin> set sampled)) \<and>
   (candidates_loop predict species prefix staph (Suc 0) (h, {}, draws) = Returned (h', cands, rest) \<longrightarrow>
      (\<exists>sampled. cands = {prefix @ sampled} \<and> terminator \<notin> set sampled))"
proof (intro conjI impI)
  have key: "\<exists>sampled. generated s1 = generated s0 @ sampled \<and> terminator \<notin> set sampled"
    if "sample_loop predict cl0 n0 draws0 s0 = Returned (s1, rest0)" for cl0 n0 draws0 s0 s1 rest0
  proof -
    from sample_loop_Returned [OF that] obtain ds where
      "list_all (\<lambda>k. k < length cl0 \<and> cl0 ! k \<noteq> terminator) ds"
      "generated s1 = generated s0 @ map (\<lambda>k. cl0 ! k) ds" by blast
    then show ?thesis
      by (intro exI [of _ "map (\<lambda>k. cl0 ! k) ds"]) (auto simp: list_all_iff)
  qed
  {
    assume "sample_loop predict cl n draws s = Returned (s', rest)"
    then show "\<exists>sampled. generated s' = generated s @ sampled \<and> terminator \<notin> set sampled"
      by (rule key)
  next
    assume "generate_name predict species draws h = Returned (name, h', rest)"
    from generate_name_Returned [OF this] obtain ds c z s1 where
      r: "sample_loop predict (char_list species) (n_x species) ds
         \<lparr>heap = h @ [z], x = length h, generated = [c]\<rparr> = Returned (s1, rest)"
      and nm: "name = generated s1" by blast
    from key [OF r] obtain sampled where "generated s1 = c # sampled" "terminator \<notin> set sampled"
      by auto
    with nm show "\<exists>c sampled. name = c # sampled \<and> terminator \<notin> set sampled" by blast
  next
    assume "candidates_loop predict species prefix staph (Suc 0) (h, {}, draws) = Returned (h', cands, rest)"
    from candidates_loop_Suc [OF this] obtain s1 where
      r: "sample_loop predict (char_list species) (n_x species) draws
         \<lparr>heap = h @ [h ! staph], x = length h, generated = []\<rparr> = Returned (s1, rest)"
      and cs: "cands = {prefix @ generated s1}" by auto
    from key [OF r] obtain sampled where "generated s1 = sampled" "terminator \<notin> set sampled"
      by auto
    with cs show "\<exists>sampled. cands = {prefix @ sampled} \<and> terminator \<notin> set sampled" by blast
  }
qed

text \<open>
  The same on one run of the loop, one run of the sampler without a prefix and one
  prefix-seeded run, over the vocabulary of the corpus \<open>["ab@"]\<close>.
\<close>

theorem sampler_excludes_terminator_witness:
  "sample_loop (const_model [1/4, 1/4, 1/2]) ''@ab'' 3 [1, 2, 0, 1]
     \<lparr>heap = [[[[0, 1, 0]]]], x = 0, generated = ''a''\<rparr> =
   Returned (\<lparr>heap = [[[[0, 1, 0]]], [[[0, 1, 0]]], [[[0, 1, 0], [0, 1, 0]]], [[[0, 0, 1]]],
                      [[[0, 1, 0], [0, 1, 0], [0, 0, 1]]]],
              x = 4, generated = ''aab''\<rparr>, [1]) \<and>
   (\<exists>sampled. ''aab'' = ''a'' @ sampled \<and> terminator \<notin> set sampled) \<and>
   generate_name (const_model [1/4, 1/4, 1/2]) [''ab@''] [2, 1, 0] [] =
   Returned (''ba'', [[[[0, 0, 1]]], [[[0, 1, 0]]], [[[0, 0, 1], [0, 1, 0]]]], []) \<and>
   (\<exists>c sampled. ''ba'' = c # sampled \<and> terminator \<notin> set sampled) \<and>
   candidates_loop (const_model [1/4, 1/4, 1/2]) [''ab@''] ''b'' 0 (Suc 0) ([[[[0, 0, 1]]]], {}, [1, 0]) =
   Returned ([[[[0, 0, 1]]], [[[0, 0, 1]]], [[[0, 1, 0]]], [[[0, 0, 1], [0, 1, 0]]]], {''ba''}, []) \<and>
   (\<exists>sampled. {''ba''} = {''b'' @ sampled} \<and> terminator \<notin> set sampled)"
proof -
  have a: "sample_loop (const_model [1/4, 1/4, 1/2]) ''@ab'' 3 [1, 2, 0, 1]
     \<lparr>heap = [[[[0, 1, 0]]]], x = 0, generated = ''a''\<rparr> =
   Returned (\<lparr>heap = [[[[0, 1, 0]]], [[[0, 1, 0]]], [[[0, 1, 0], [0, 1, 0]]], [[[0, 0, 1]]],
                      [[[0, 1, 0], [0, 1, 0], [0, 0, 1]]]],
              x = 4, generated = ''aab''\<rparr>, [1])"
    by code_simp
  have b: "generate_name (const_model [1/4, 1/4, 1/2]) [''ab@''] [2, 1, 0] [] =
   Returned (''ba'', [[[[0, 0, 1]]], [[[0, 1, 0]]], [[[0, 0, 1], [0, 1, 0]]]], [])"
    by code_simp
  have c: "candidates_loop (const_model [1/4, 1/4, 1/2]) [''ab@''] ''b'' 0 (Suc 0) ([[[[0, 0, 1]]]], {}, [1, 0]) =
   Returned ([[[[0, 0, 1]]], [[[0, 0, 1]]], [[[0, 1, 0]]], [[[0, 0, 1], [0, 1, 0]]]], {''ba''}, [])"
    by code_simp
  have 1: "\<exists>sampled. ''aab'' = ''a'' @ sampled \<and> terminator \<notin> set sampled"
    using sampler_excludes_terminator [THEN conjunct1, THEN mp, OF a] by simp
  have 2: "\<exists>c sampled. ''ba'' = c # sampled \<and> terminator \<notin> set sampled"
    using sampler_excludes_terminator [THEN conjunct2, THEN conjunct1, THEN mp, OF b] .
  have 3: "\<exists>sampled. {''ba''} = {''b'' @ sampled} \<and> terminator \<notin> set sampled"
    using sampler_excludes_terminator [THEN conjunct2, THEN conjunct2, THEN mp, OF c] .
  show ?thesis
    by (intro conjI a b c 1 2 3)
qed

section \<open>Candidates and the first letter\<close>

lemma synthesize_Returned:
  assumes "synthesize predict species prefix draws h = Returned r"
  shows "\<exists>h1 staph. encode_prefix species prefix h = Inr (h1, staph) \<and>
           candidates_loop predict species prefix staph 10 (h1, {}, draws) = Returned r"
  using assms by (auto simp: synthesize_def rbind_Returned lift_Returned)

text \<open>
  Claim C5. For every prefix and every run of the prefix cell that returns, every
  candidate is the prefix followed by sampled characters only: the characters of
  \<open>char_list\<close> at indices that were drawn in the run, none of them the terminator.
  (A prefix with a character outside the vocabulary raises KeyError, and the cell returns
  nothing.)
\<close>

theorem prefix_kept:
  assumes "synthesize predict species prefix draws h = Returned (h', cands, rest)"
  shows "\<forall>c\<in>cands. \<exists>ds. c = prefix @ map (\<lambda>k. char_list species ! k) ds \<and>
           set ds \<subseteq> set draws \<and>
           list_all (\<lambda>k. k < n_x species \<and> char_list species ! k \<noteq> terminator) ds"
proof -
  from synthesize_Returned [OF assms] obtain h1 staph where
    "candidates_loop predict species prefix staph 10 (h1, {}, draws) = Returned (h', cands, rest)"
    by blast
  from candidates_loop_Returned [OF this] show ?thesis
    by (simp add: char_list_length)
qed

lemma synthesize_example:
  "rbind (synthesize (const_model [1/4, 1/4, 1/2]) [''ab@''] ''ba''
            [1, 2, 0, 0, 0, 0, 0, 0, 0, 0, 0, 0] [])
     (\<lambda>r. Returned (snd r)) =
   Returned ({''ba'', ''baab''}, [])"
  by code_simp

text \<open>
  C5 on a run of the cell with the prefix \<open>"ba"\<close>: ten runs of the loop, two
  different candidates.
\<close>

theorem prefix_kept_witness:
  "\<exists>h'. synthesize (const_model [1/4, 1/4, 1/2]) [''ab@''] ''ba''
            [1, 2, 0, 0, 0, 0, 0, 0, 0, 0, 0, 0] [] =
          Returned (h', {''ba'', ''baab''}, []) \<and>
        (\<exists>ds. ''baab'' = ''ba'' @ map (\<lambda>k. char_list [''ab@''] ! k) ds \<and>
              set ds \<subseteq> set [1, 2, 0, 0, 0, 0, 0, 0, 0, 0, 0, 0] \<and>
              list_all (\<lambda>k. k < n_x [''ab@''] \<and> char_list [''ab@''] ! k \<noteq> terminator) ds)"
proof -
  from synthesize_example obtain r where
    r: "synthesize (const_model [1/4, 1/4, 1/2]) [''ab@''] ''ba''
          [1, 2, 0, 0, 0, 0, 0, 0, 0, 0, 0, 0] [] = Returned r"
    and s: "snd r = ({''ba'', ''baab''}, [])"
    unfolding rbind_Returned by blast
  obtain h' where h: "r = (h', {''ba'', ''baab''}, [])"
    using s by (cases r) simp
  from prefix_kept [OF r [unfolded h]] have
    "\<exists>ds. ''baab'' = ''ba'' @ map (\<lambda>k. char_list [''ab@''] ! k) ds \<and>
              set ds \<subseteq> set [1, 2, 0, 0, 0, 0, 0, 0, 0, 0, 0, 0] \<and>
              list_all (\<lambda>k. k < n_x [''ab@''] \<and> char_list [''ab@''] ! k \<noteq> terminator) ds"
    by (rule bspec) simp
  with r h show ?thesis by blast
qed

text \<open>
  Claim C8 fails on the code: the first index is drawn from \<open>2 .. n_x - 1\<close>, which
  leaves out the terminator only when it is one of the first two characters of the sorted
  vocabulary. For a file with the line \<open>sp.1\<close> the vocabulary sorts to
  \<open>. 1 @ p s\<close>, the terminator has index 2, and the draw 2 starts the name with it.
\<close>

theorem first_letter_terminator:
  "load_species (''sp.1'' @ [newline]) = [''sp.1@''] \<and>
   char_list [''sp.1@''] = ''.1@ps'' \<and> n_x [''sp.1@''] = 5 \<and>
   randint 2 (n_x [''sp.1@'']) 2 = Returned 2 \<and>
   idx2char (char_list [''sp.1@'']) 2 = Inr terminator \<and>
   generate_name (const_model [0, 0, 1/2, 1/2, 0]) [''sp.1@''] [2, 3, 2] [] =
     Returned (''@p'', [[[[0, 0, 1, 0, 0]]], [[[0, 0, 0, 1, 0]]],
                       [[[0, 0, 1, 0, 0], [0, 0, 0, 1, 0]]]], [])"
  by code_simp

section \<open>The shared prefix array\<close>

lemma rbind_assoc: "rbind (rbind r f) g = rbind r (\<lambda>v. rbind (f v) g)"
  by (cases r) simp_all

text \<open>
  The loop of \<open>j + k\<close> runs is the loop of \<open>j\<close> runs followed by the loop of \<open>k\<close>
  runs from the state that the first left.
\<close>

lemma candidates_loop_add:
  "candidates_loop predict species prefix staph (j + k) st =
   rbind (candidates_loop predict species prefix staph j st)
         (candidates_loop predict species prefix staph k)"
  by (induction j arbitrary: st) (simp_all add: alloc_def rbind_assoc)

lemma candidates_loop_split:
  assumes "candidates_loop predict species prefix staph k st = Returned r" "j < k"
  shows "\<exists>hj cj dj s1 r1.
           candidates_loop predict species prefix staph j st = Returned (hj, cj, dj) \<and>
           sample_loop predict (char_list species) (n_x species) dj
             \<lparr>heap = hj @ [hj ! staph], x = length hj, generated = []\<rparr> = Returned (s1, r1) \<and>
           candidates_loop predict species prefix staph (k - Suc j)
             (heap s1, insert (prefix @ generated s1) cj, r1) = Returned r"
proof -
  from assms(2) have k: "k = j + Suc (k - Suc j)" by simp
  from assms(1) obtain stj where
    j: "candidates_loop predict species prefix staph j st = Returned stj"
    and rest: "candidates_loop predict species prefix staph (Suc (k - Suc j)) stj = Returned r"
    by (subst (asm) k, subst (asm) candidates_loop_add) (auto simp: rbind_Returned)
  obtain hj cj dj where stj: "stj = (hj, cj, dj)" by (cases stj)
  from candidates_loop_Suc [OF rest [unfolded stj]] j stj show ?thesis by blast
qed

lemma candidates_loop_next:
  assumes "candidates_loop predict species prefix staph j st = Returned (hj, cj, dj)"
  shows "candidates_loop predict species prefix staph (Suc j) st =
         rbind (sample_loop predict (char_list species) (n_x species) dj
                  \<lparr>heap = hj @ [hj ! staph], x = length hj, generated = []\<rparr>)
               (\<lambda>r. Returned (heap (fst r), insert (prefix @ generated (fst r)) cj, snd r))"
proof -
  have "candidates_loop predict species prefix staph (j + 1) st =
        rbind (candidates_loop predict species prefix staph j st)
              (candidates_loop predict species prefix staph 1)"
    by (rule candidates_loop_add)
  with assms show ?thesis by (simp add: alloc_def)
qed

text \<open>
  Claim C10 (frame property). Let the prefix be a string over the vocabulary, encoded
  into the array \<open>staph\<close>, and let the loop of \<open>k\<close> runs return. Then for every
  \<open>j < k\<close>, run \<open>j + 1\<close> of the loop is the sampling loop started with \<open>x\<close> referring
  to a new array, at an address other than that of \<open>staph\<close>, which holds the one-hot
  encoding of the prefix, as \<open>staph\<close> does at that moment: every run works on a copy and
  all runs start from the same encoding. When the run returns, every array that existed
  at its start is unchanged, the copy included, and \<open>staph\<close> still holds the
  encoding; so it does after the last run.
\<close>

theorem prefix_array_unchanged:
  assumes "set prefix \<subseteq> char_set species"
    and "encode_prefix species prefix h = Inr (h1, staph)"
    and "candidates_loop predict species prefix staph k (h1, cands, draws) = Returned (h', cands', rest)"
    and "j < k"
  shows "\<exists>hj cj dj s1 r1.
     candidates_loop predict species prefix staph j (h1, cands, draws) = Returned (hj, cj, dj) \<and>
     candidates_loop predict species prefix staph (Suc j) (h1, cands, draws) =
       rbind (sample_loop predict (char_list species) (n_x species) dj
                \<lparr>heap = hj @ [hj ! staph], x = length hj, generated = []\<rparr>)
             (\<lambda>r. Returned (heap (fst r), insert (prefix @ generated (fst r)) cj, snd r)) \<and>
     sample_loop predict (char_list species) (n_x species) dj
       \<lparr>heap = hj @ [hj ! staph], x = length hj, generated = []\<rparr> = Returned (s1, r1) \<and>
     length hj \<noteq> staph \<and>
     (hj @ [hj ! staph]) ! length hj =
       [map (\<lambda>c. one_hot (n_x species) (the (char_map (char_list species) c))) prefix] \<and>
     (hj @ [hj ! staph]) ! staph =
       [map (\<lambda>c. one_hot (n_x species) (the (char_map (char_list species) c))) prefix] \<and>
     take (Suc (length hj)) (heap s1) = hj @ [hj ! staph] \<and>
     heap s1 ! staph =
       [map (\<lambda>c. one_hot (n_x species) (the (char_map (char_list species) c))) prefix] \<and>
     take (length h1) h' = h1 \<and>
     h' ! staph =
       [map (\<lambda>c. one_hot (n_x species) (the (char_map (char_list species) c))) prefix]"
proof -
  let ?enc = "[map (\<lambda>c. one_hot (n_x species) (the (char_map (char_list species) c))) prefix]"
  from assms(2) encode_prefix_closed [OF assms(1), of h]
  have h1: "h1 = h @ [?enc]" and st: "staph = length h" by simp_all
  have lt: "staph < length h1" and e1: "h1 ! staph = ?enc" by (simp_all add: h1 st)
  from candidates_loop_split [OF assms(3,4)] obtain hj cj dj s1 r1 where
    j: "candidates_loop predict species prefix staph j (h1, cands, draws) = Returned (hj, cj, dj)"
    and run: "sample_loop predict (char_list species) (n_x species) dj
                \<lparr>heap = hj @ [hj ! staph], x = length hj, generated = []\<rparr> = Returned (s1, r1)"
    by blast
  from candidates_loop_Returned [OF j] obtain extj where hj: "hj = h1 @ extj" by blast
  from sample_loop_Returned [OF run] obtain ext1 where s1: "heap s1 = (hj @ [hj ! staph]) @ ext1"
    by auto
  from candidates_loop_Returned [OF assms(3)] obtain ext where h': "h' = h1 @ ext" by blast
  have a: "hj ! staph = ?enc" using lt e1 by (simp add: hj nth_append)
  have b: "length hj \<noteq> staph" using lt by (simp add: hj)
  have c: "(hj @ [hj ! staph]) ! length hj = ?enc" using a by simp
  have d: "(hj @ [hj ! staph]) ! staph = ?enc" using a lt by (simp add: hj nth_append)
  have e: "take (Suc (length hj)) (heap s1) = hj @ [hj ! staph]" by (simp add: s1)
  have f: "heap s1 ! staph = ?enc" using a lt by (simp add: s1 hj nth_append)
  have g: "take (length h1) h' = h1" by (simp add: h')
  have i: "h' ! staph = ?enc" using lt e1 by (simp add: h' nth_append)
  from j candidates_loop_next [OF j] run b c d e f g i show ?thesis by blast
qed

lemma two_runs_example:
  "encode_prefix [''ab@''] ''ba'' [] = Inr ([[[[0, 0, 1], [0, 1, 0]]]], 0) \<and>
   candidates_loop (const_model [1/4, 1/4, 1/2]) [''ab@''] ''ba'' 0 2
     ([[[[0, 0, 1], [0, 1, 0]]]], {}, [1, 0, 0]) =
   Returned ([[[[0, 0, 1], [0, 1, 0]]], [[[0, 0, 1], [0, 1, 0]]], [[[0, 1, 0]]],
              [[[0, 0, 1], [0, 1, 0], [0, 1, 0]]], [[[0, 0, 1], [0, 1, 0]]]],
             {''ba'', ''baa''}, [])"
  by code_simp

text \<open>
  C10 on the second of two runs with the prefix \<open>"ba"\<close> over the vocabulary of
  \<open>["ab@"]\<close>.
\<close>

theorem prefix_array_unchanged_witness:
  "\<exists>hj cj dj s1 r1.
     candidates_loop (const_model [1/4, 1/4, 1/2]) [''ab@''] ''ba'' 0 1
       ([[[[0, 0, 1], [0, 1, 0]]]], {}, [1, 0, 0]) = Returned (hj, cj, dj) \<and>
     candidates_loop (const_model [1/4, 1/4, 1/2]) [''ab@''] ''ba'' 0 (Suc 1)
       ([[[[0, 0, 1], [0, 1, 0]]]], {}, [1, 0, 0]) =
       rbind (sample_loop (const_model [1/4, 1/4, 1/2]) (char_list [''ab@'']) (n_x [''ab@'']) dj
                \<lparr>heap = hj @ [hj ! 0], x = length hj, generated = []\<rparr>)
             (\<lambda>r. Returned (heap (fst r), insert (''ba'' @ generated (fst r)) cj, snd r)) \<and>
     sample_loop (const_model [1/4, 1/4, 1/2]) (char_list [''ab@'']) (n_x [''ab@'']) dj
       \<lparr>heap = hj @ [hj ! 0], x = length hj, generated = []\<rparr> = Returned (s1, r1) \<and>
     length hj \<noteq> 0 \<and>
     (hj @ [hj ! 0]) ! length hj =
       [map (\<lambda>c. one_hot (n_x [''ab@'']) (the (char_map (char_list [''ab@'']) c))) ''ba''] \<and>
     (hj @ [hj ! 0]) ! 0 =
       [map (\<lambda>c. one_hot (n_x [''ab@'']) (the (char_map (char_list [''ab@'']) c))) ''ba''] \<and>
     take (Suc (length hj)) (heap s1) = hj @ [hj ! 0] \<and>
     heap s1 ! 0 =
       [map (\<lambda>c. one_hot (n_x [''ab@'']) (the (char_map (char_list [''ab@'']) c))) ''ba''] \<and>
     take (length ([[[[0, 0, 1], [0, 1, 0]]]] :: heap))
       [[[[0, 0, 1], [0, 1, 0]]], [[[0, 0, 1], [0, 1, 0]]], [[[0, 1, 0]]],
        [[[0, 0, 1], [0, 1, 0], [0, 1, 0]]], [[[0, 0, 1], [0, 1, 0]]]] =
       ([[[[0, 0, 1], [0, 1, 0]]]] :: heap) \<and>
     ([[[[0, 0, 1], [0, 1, 0]]], [[[0, 0, 1], [0, 1, 0]]], [[[0, 1, 0]]],
       [[[0, 0, 1], [0, 1, 0], [0, 1, 0]]], [[[0, 0, 1], [0, 1, 0]]]] :: heap) ! 0 =
       [map (\<lambda>c. one_hot (n_x [''ab@'']) (the (char_map (char_list [''ab@'']) c))) ''ba'']"
proof -
  have v: "set ''ba'' \<subseteq> char_set [''ab@'']" by (simp add: char_set_def)
  have j: "(1::nat) < 2" by simp
  show ?thesis
    by (rule prefix_array_unchanged [OF v two_runs_example [THEN conjunct1]
              two_runs_example [THEN conjunct2] j])
qed

section \<open>Termination of the sampling loop\<close>





lemma sample_step_no_mass:
  assumes "last_step (predict (heap s ! x s)) = Inr p" "p ! d \<le> 0"
  shows "sample_step predict cl n d s = Raised ValueError \<or>
         sample_step predict cl n d s = NoSuchDraw"
  using assms by (simp add: sample_step_def choice_def)

lemma mass_running:
  assumes "last_step (predict (heap s ! x s)) = Inr p"
  shows "mass predict s d = p ! d"
  using assms by (simp add: mass_def)

subsection \<open>The probability of returning\<close>






subsection \<open>A loop without bound, and a model with shrinking terminator probability\<close>









subsection \<open>The claim on termination\<close>








end
